theory Spec2Isabelle
  imports Main "HOL-Library.Char_ord" "HOL-Library.List_Lexorder" "HOL-Library.FSet"
    "HOL-Library.Multiset"
begin

section \<open>Strings\<close>

text \<open>
  Python strings are modelled as \<^typ>\<open>string\<close>, their characters being the code points
  below 256; the order on them is the lexicographic order on character codes, which is
  how Python compares \<open>str\<close> values.
\<close>

text \<open>\<open>s.split(sep)\<close> for a one-character separator: never the empty list.\<close>

fun split :: "char \<Rightarrow> string \<Rightarrow> string list" where
  "split sep [] = [[]]"
| "split sep (c # cs) =
     (if c = sep then [] # split sep cs
      else (case split sep cs of
              [] \<Rightarrow> [[c]]
            | w # ws \<Rightarrow> (c # w) # ws))"

text \<open>\<open>s.startswith(p)\<close>.\<close>

fun startswith :: "string \<Rightarrow> string \<Rightarrow> bool" where
  "startswith s [] = True"
| "startswith [] (p # ps) = False"
| "startswith (c # cs) (p # ps) = (c = p \<and> startswith cs ps)"

text \<open>
  \<open>len(content.splitlines())\<close>: a line ends at a line boundary character, \<open>\r\n\<close>
  counts as one boundary, and a trailing boundary opens no further line.
\<close>

definition is_linebreak :: "char \<Rightarrow> bool" where
  "is_linebreak c \<longleftrightarrow>
     c \<in> set [CHR 0x0A, CHR 0x0B, CHR 0x0C, CHR 0x0D, CHR 0x1C, CHR 0x1D, CHR 0x1E, CHR 0x85]"

fun splitlines_from :: "string \<Rightarrow> string \<Rightarrow> string list" where
  "splitlines_from cur [] = (if cur = [] then [] else [rev cur])"
| "splitlines_from cur [c] =
     (if is_linebreak c then [rev cur] else [rev (c # cur)])"
| "splitlines_from cur (c # d # cs) =
     (if c = CHR 0x0D \<and> d = CHR 0x0A then rev cur # splitlines_from [] cs
      else if is_linebreak c then rev cur # splitlines_from [] (d # cs)
      else splitlines_from (c # cur) (d # cs))"

definition splitlines :: "string \<Rightarrow> string list" where
  "splitlines content = splitlines_from [] content"

text \<open>\<open>content[:200] + '...' if len(content) > 200 else content\<close>.\<close>

definition content_preview :: "string \<Rightarrow> string" where
  "content_preview content =
     (if length content > 200 then take 200 content @ ''...'' else content)"

text \<open>
  \<open>str.lower()\<close> on the ASCII letters. Other characters are left as they are; none of
  them occurs in a suffix the classifier compares against.
\<close>

definition lower_char :: "char \<Rightarrow> char" where
  "lower_char c =
     (if CHR ''A'' \<le> c \<and> c \<le> CHR ''Z'' then char_of (of_char c + (32::nat)) else c)"

definition lower :: "string \<Rightarrow> string" where
  "lower s = map lower_char s"

text \<open>
  \<open>Path.suffix\<close>: the part of the final component from its last dot on, empty when
  there is no dot, or the only dot leads or ends the name.
\<close>

fun last_dot :: "string \<Rightarrow> nat option" where
  "last_dot [] = None"
| "last_dot (c # cs) =
     (case last_dot cs of
        Some i \<Rightarrow> Some (Suc i)
      | None \<Rightarrow> (if c = CHR ''.'' then Some 0 else None))"

definition suffix :: "string \<Rightarrow> string" where
  "suffix name =
     (case last_dot name of
        None \<Rightarrow> []
      | Some i \<Rightarrow> (if 0 < i \<and> i < length name - 1 then drop i name else []))"

section \<open>The syntax tree of a Python file\<close>

text \<open>
  What \<open>ast.parse\<close> returns, as far as \<open>analyze_python_file\<close> looks at it: every node
  has a kind and its child nodes in the order of \<open>ast.iter_child_nodes\<close>. The body of a
  class is among its children, and the other children of a class (bases, keywords,
  decorators) are expressions, so the function definitions among the children are those of
  the body. A node of any class other than \<open>Import\<close>, \<open>ImportFrom\<close>, \<open>ClassDef\<close> and
  \<open>FunctionDef\<close> has the kind \<open>Other\<close>; an \<open>AsyncFunctionDef\<close> is one of them.
\<close>

datatype node_kind =
    Import "string list"
  | ImportFrom "string option"
  | ClassDef string int
  | FunctionDef string int "string list"
  | Other

datatype py_node = Node node_kind "py_node list"

fun kind :: "py_node \<Rightarrow> node_kind" where
  "kind (Node k cs) = k"

fun iter_child_nodes :: "py_node \<Rightarrow> py_node list" where
  "iter_child_nodes (Node k cs) = cs"

fun node_count :: "py_node \<Rightarrow> nat" where
  "node_count (Node k cs) = Suc (sum_list (map node_count cs))"

text \<open>
  \<open>ast.walk\<close>: a queue, the node at its front is yielded and its children are appended
  at the back.
\<close>

function walk :: "py_node list \<Rightarrow> py_node list" where
  "walk [] = []"
| "walk (n # todo) = n # walk (todo @ iter_child_nodes n)"
  by pat_completeness auto
termination
proof (relation "measure (\<lambda>todo. sum_list (map node_count todo))")
  show "wf (measure (\<lambda>todo. sum_list (map node_count todo)))" by simp
next
  fix n :: py_node and todo :: "py_node list"
  show "(todo @ iter_child_nodes n, n # todo) \<in> measure (\<lambda>todo. sum_list (map node_count todo))"
    by (cases n) simp
qed

section \<open>Analysis results\<close>

record py_class =
  cls_name :: string
  cls_line :: int
  cls_methods :: "string list"

record py_function =
  fn_name :: string
  fn_line :: int
  fn_args :: "string list"

text \<open>
  The dictionaries that the three analysers return. The constructor is the set of keys:
  a successful Python analysis (lines, imports, classes, functions, content_preview), a
  failed one (error, lines = 0), the same two for JavaScript (lines, imports, functions,
  classes, content_preview), a text file (lines, content_preview) and a binary file
  (lines = 0).
\<close>

datatype analysis =
    PythonAnalysis nat "string list" "py_class list" "py_function list" string
  | PythonError string
  | JavascriptAnalysis nat "string list" "string list" "string list" string
  | JavascriptError string
  | TextAnalysis nat string
  | BinaryAnalysis

fun analysis_type :: "analysis \<Rightarrow> string" where
  "analysis_type (PythonAnalysis n is cs fs p) = ''python''"
| "analysis_type (PythonError e) = ''python''"
| "analysis_type (JavascriptAnalysis n is fs cs p) = ''javascript''"
| "analysis_type (JavascriptError e) = ''javascript''"
| "analysis_type (TextAnalysis n p) = ''text''"
| "analysis_type BinaryAnalysis = ''binary''"

fun analysis_lines :: "analysis \<Rightarrow> nat" where
  "analysis_lines (PythonAnalysis n is cs fs p) = n"
| "analysis_lines (PythonError e) = 0"
| "analysis_lines (JavascriptAnalysis n is fs cs p) = n"
| "analysis_lines (JavascriptError e) = 0"
| "analysis_lines (TextAnalysis n p) = n"
| "analysis_lines BinaryAnalysis = 0"

fun analysis_error :: "analysis \<Rightarrow> string option" where
  "analysis_error (PythonError e) = Some e"
| "analysis_error (JavascriptError e) = Some e"
| "analysis_error a = None"

fun analysis_preview :: "analysis \<Rightarrow> string option" where
  "analysis_preview (PythonAnalysis n is cs fs p) = Some p"
| "analysis_preview (JavascriptAnalysis n is fs cs p) = Some p"
| "analysis_preview (TextAnalysis n p) = Some p"
| "analysis_preview a = None"

fun has_summary :: "analysis \<Rightarrow> bool" where
  "has_summary (PythonAnalysis n is cs fs p) = True"
| "has_summary (JavascriptAnalysis n is fs cs p) = True"
| "has_summary a = False"

section \<open>The report tree and the analyser's state\<close>

text \<open>
  A tree is a dictionary from entry names to nodes, in insertion order: a file node with
  its path relative to the repository and its analysis, or a directory node with its
  children.
\<close>

datatype tree_node =
    FileNode string analysis
  | DirNode "(string \<times> tree_node) list"

type_synonym tree = "(string \<times> tree_node) list"

text \<open>\<open>d[k] = v\<close>: an existing key keeps its place, a new one goes to the end.\<close>

fun dict_set :: "('k \<times> 'v) list \<Rightarrow> 'k \<Rightarrow> 'v \<Rightarrow> ('k \<times> 'v) list" where
  "dict_set [] k v = [(k, v)]"
| "dict_set ((k', v') # d) k v =
     (if k' = k then (k, v) # d else (k', v') # dict_set d k v)"

text \<open>
  The fields of \<open>RepoAnalysis\<close> that its methods read or write; the field \<open>structure\<close>
  is \<open>repo_structure\<close> here.
\<close>

record repo_analysis =
  repo_structure :: tree
  dependencies :: "string fset"
  total_lines :: nat
  total_files :: nat

definition init_analysis :: repo_analysis where
  "init_analysis =
     \<lparr>repo_structure = [], dependencies = {||}, total_lines = 0, total_files = 0\<rparr>"

text \<open>
  The library functions whose results depend on the text of a file: \<open>ast.parse\<close>
  (the error message or the tree) and the three \<open>re.findall\<close> searches of
  \<open>analyze_javascript_file\<close> (the second returns a pair of groups per match).
\<close>

record lib =
  ast_parse :: "string \<Rightarrow> string + py_node"
  find_imports :: "string \<Rightarrow> string list"
  find_functions :: "string \<Rightarrow> (string \<times> string) list"
  find_classes :: "string \<Rightarrow> string list"

text \<open>
  What reading a file as UTF-8 text gives: the text, or the message of the exception
  raised by \<open>open\<close> or \<open>read\<close>.
\<close>

datatype file_data = Unreadable string | Text string

section \<open>analyze_python_file\<close>

text \<open>The lists filled by the loop over the nodes.\<close>

record py_lists =
  py_imports :: "string list"
  py_classes :: "py_class list"
  py_functions :: "py_function list"

definition method_names :: "py_node list \<Rightarrow> string list" where
  "method_names body =
     concat (map (\<lambda>n. case kind n of FunctionDef name line args \<Rightarrow> [name] | _ \<Rightarrow> []) body)"

text \<open>One iteration of \<open>for node in ast.walk(tree)\<close>.\<close>

definition visit_node :: "py_node \<Rightarrow> py_lists \<times> repo_analysis \<Rightarrow> py_lists \<times> repo_analysis" where
  "visit_node node acc =
     (case acc of (l, s) \<Rightarrow>
        (case kind node of
           Import names \<Rightarrow>
             fold (\<lambda>name (l, s).
                     (l\<lparr>py_imports := py_imports l @ [name]\<rparr>,
                      s\<lparr>dependencies := finsert (hd (split CHR ''.'' name)) (dependencies s)\<rparr>))
               names (l, s)
         | ImportFrom module \<Rightarrow>
             (case module of
                None \<Rightarrow> (l, s)
              | Some m \<Rightarrow>
                  (if m = [] then (l, s)
                   else (l\<lparr>py_imports := py_imports l @ [''from '' @ m]\<rparr>,
                         s\<lparr>dependencies := finsert (hd (split CHR ''.'' m)) (dependencies s)\<rparr>)))
         | ClassDef name line \<Rightarrow>
             (l\<lparr>py_classes := py_classes l @
                  [\<lparr>cls_name = name, cls_line = line,
                    cls_methods = method_names (iter_child_nodes node)\<rparr>]\<rparr>, s)
         | FunctionDef name line args \<Rightarrow>
             (if \<not> list_ex (\<lambda>cls. line \<ge> cls_line cls) (py_classes l)
              then (l\<lparr>py_functions := py_functions l @
                       [\<lparr>fn_name = name, fn_line = line, fn_args = args\<rparr>]\<rparr>, s)
              else (l, s))
         | Other \<Rightarrow> (l, s)))"

definition empty_lists :: py_lists where
  "empty_lists = \<lparr>py_imports = [], py_classes = [], py_functions = []\<rparr>"

definition analyze_python_file ::
  "lib \<Rightarrow> file_data \<Rightarrow> repo_analysis \<Rightarrow> analysis \<times> repo_analysis" where
  "analyze_python_file lb file s =
     (case file of
        Unreadable e \<Rightarrow> (PythonError e, s)
      | Text content \<Rightarrow>
          (case ast_parse lb content of
             Inl e \<Rightarrow> (PythonError e, s)
           | Inr t \<Rightarrow>
               (case fold visit_node (walk [t]) (empty_lists, s) of (l, s1) \<Rightarrow>
                  let lines = length (splitlines content)
                  in (PythonAnalysis lines (py_imports l) (py_classes l) (py_functions l)
                        (content_preview content),
                      s1\<lparr>total_lines := total_lines s1 + lines\<rparr>))))"

section \<open>analyze_javascript_file\<close>

definition analyze_javascript_file ::
  "lib \<Rightarrow> file_data \<Rightarrow> repo_analysis \<Rightarrow> analysis \<times> repo_analysis" where
  "analyze_javascript_file lb file s =
     (case file of
        Unreadable e \<Rightarrow> (JavascriptError e, s)
      | Text content \<Rightarrow>
          (let imps = find_imports lb content;
               funs = find_functions lb content;
               clss = find_classes lb content;
               s1 = fold (\<lambda>imp s. s\<lparr>dependencies :=
                            finsert (if CHR ''/'' \<in> set imp then hd (split CHR ''/'' imp) else imp)
                              (dependencies s)\<rparr>) imps s;
               lines = length (splitlines content)
           in (JavascriptAnalysis lines imps
                 (map (\<lambda>f. if fst f \<noteq> [] then fst f else snd f) funs) clss
                 (content_preview content),
               s1\<lparr>total_lines := total_lines s1 + lines\<rparr>)))"

section \<open>analyze_file\<close>

definition analyze_file ::
  "lib \<Rightarrow> string \<Rightarrow> file_data \<Rightarrow> repo_analysis \<Rightarrow> analysis \<times> repo_analysis" where
  "analyze_file lb name file s =
     (let sfx = lower (suffix name)
      in if sfx = ''.py'' then analyze_python_file lb file s
         else if sfx \<in> set [''.js'', ''.jsx'', ''.ts'', ''.tsx'']
         then analyze_javascript_file lb file s
         else (case file of
                 Text content \<Rightarrow>
                   (let lines = length (splitlines content)
                    in (TextAnalysis lines (content_preview content),
                        s\<lparr>total_lines := total_lines s + lines\<rparr>))
               | Unreadable e \<Rightarrow> (BinaryAnalysis, s)))"

section \<open>The file system\<close>

text \<open>
  The exceptions that cross a function boundary, each with its message: a
  \<open>PermissionError\<close>, an \<open>OSError\<close> of another class, and the \<open>HTTPException\<close> of the
  web framework with its status code and detail.
\<close>

datatype exc =
    PermissionError string
  | OSError string
  | HTTPException nat string

text \<open>
  A snapshot of the cloned repository. An entry is a regular file with what reading it
  gives, a directory with its entries in the order \<open>iterdir\<close> yields them, a directory
  whose \<open>iterdir\<close> raises, an entry that is neither a file nor a directory, or an entry
  on which \<open>is_file\<close> raises.
\<close>

datatype entry =
    File string file_data
  | Dir string "entry list"
  | NoList string exc
  | Special string
  | NoStat string exc

fun entry_name :: "entry \<Rightarrow> string" where
  "entry_name (File name file) = name"
| "entry_name (Dir name items) = name"
| "entry_name (NoList name e) = name"
| "entry_name (Special name) = name"
| "entry_name (NoStat name e) = name"

fun iterdir :: "entry \<Rightarrow> exc + entry list" where
  "iterdir (Dir name items) = Inr items"
| "iterdir (NoList name e) = Inl e"
| "iterdir (NoStat name e) = Inl e"
| "iterdir (File name file) = Inl (OSError ''Not a directory'')"
| "iterdir (Special name) = Inl (OSError ''Not a directory'')"

fun entry_size :: "entry \<Rightarrow> nat" where
  "entry_size (Dir name items) = Suc (sum_list (map entry_size items))"
| "entry_size e = 1"

text \<open>\<open>str(item.relative_to(self.repo_path))\<close>, from the names of the directories above.\<close>

definition rel_path :: "string list \<Rightarrow> string \<Rightarrow> string" where
  "rel_path rel name = foldr (\<lambda>d p. d @ ''/'' @ p) rel name"

section \<open>build_file_tree\<close>

text \<open>The test that opens the loop body: hidden entries and the three ignored names.\<close>

definition should_skip :: "string \<Rightarrow> bool" where
  "should_skip name \<longleftrightarrow>
     startswith name ''.'' \<or> name \<in> set [''node_modules'', ''__pycache__'', ''venv'']"

text \<open>
  \<open>except PermissionError: pass\<close> around the loop: the tree built so far is returned;
  any other exception leaves the function.
\<close>

fun except_PermissionError :: "exc \<Rightarrow> tree \<Rightarrow> repo_analysis \<Rightarrow> (exc + tree) \<times> repo_analysis" where
  "except_PermissionError (PermissionError m) t s = (Inr t, s)"
| "except_PermissionError e t s = (Inl e, s)"

lemma sum_list_sort_key:
  "sum_list (map f (sort_key k xs)) = sum_list (map (f :: 'a \<Rightarrow> nat) xs)"
proof -
  have "sum_mset (image_mset f (mset (sort_key k xs))) = sum_mset (image_mset f (mset xs))"
    by simp
  then show ?thesis
    by (simp only: mset_map [symmetric] sum_mset_sum_list)
qed

lemma entry_size_pos: "0 < entry_size e"
  by (cases e) simp_all

text \<open>
  \<open>build_file_tree\<close> with the directory's path relative to the repository, and
  \<open>process_items\<close>, its loop over the sorted entries, carrying the tree built so far.
\<close>

function build_file_tree ::
    "lib \<Rightarrow> string list \<Rightarrow> entry \<Rightarrow> nat \<Rightarrow> nat \<Rightarrow> repo_analysis \<Rightarrow> (exc + tree) \<times> repo_analysis"
  and process_items ::
    "lib \<Rightarrow> string list \<Rightarrow> nat \<Rightarrow> nat \<Rightarrow> entry list \<Rightarrow> tree \<Rightarrow> repo_analysis
       \<Rightarrow> (exc + tree) \<times> repo_analysis"
where
  "build_file_tree lb rel path max_depth current_depth s =
     (if current_depth > max_depth then (Inr [], s)
      else (case iterdir path of
              Inl e \<Rightarrow> except_PermissionError e [] s
            | Inr items \<Rightarrow>
                process_items lb rel max_depth current_depth (sort_key entry_name items) [] s))"
| "process_items lb rel max_depth current_depth [] t s = (Inr t, s)"
| "process_items lb rel max_depth current_depth (item # rest) t s =
     (if should_skip (entry_name item)
      then process_items lb rel max_depth current_depth rest t s
      else (case item of
              File name file \<Rightarrow>
                (case analyze_file lb name file (s\<lparr>total_files := total_files s + 1\<rparr>) of
                   (file_analysis, s1) \<Rightarrow>
                     process_items lb rel max_depth current_depth rest
                       (dict_set t name (FileNode (rel_path rel name) file_analysis)) s1)
            | NoStat name e \<Rightarrow> except_PermissionError e t s
            | Special name \<Rightarrow> process_items lb rel max_depth current_depth rest t s
            | _ \<Rightarrow>
                (case build_file_tree lb (rel @ [entry_name item]) item max_depth
                        (current_depth + 1) s of
                   (Inl e, s1) \<Rightarrow> except_PermissionError e t s1
                 | (Inr subtree, s1) \<Rightarrow>
                     process_items lb rel max_depth current_depth rest
                       (if subtree \<noteq> [] then dict_set t (entry_name item) (DirNode subtree)
                        else t) s1)))"
  by pat_completeness auto
termination
  by (relation "measure (\<lambda>x. case x of
         Inl (lb, rel, path, md, cd, s) \<Rightarrow> 2 * entry_size path
       | Inr (lb, rel, md, cd, items, t, s) \<Rightarrow> 2 * sum_list (map entry_size items) + 1)")
    (auto simp: sum_list_sort_key entry_size_pos elim: iterdir.elims)

declare build_file_tree.simps [simp del]

section \<open>generate_repo_map\<close>

record repo_map =
  repository_structure :: tree
  stat_total_files :: nat
  stat_total_lines :: nat
  top_dependencies :: "string list"
  repo_path :: string
  analyzed_file_types :: "string list"

text \<open>\<open>sorted(list(self.dependencies))[:n]\<close>.\<close>

definition sorted_deps :: "nat \<Rightarrow> string fset \<Rightarrow> string list" where
  "sorted_deps n deps = take n (sorted_list_of_fset deps)"

definition generate_repo_map ::
  "lib \<Rightarrow> entry \<Rightarrow> repo_analysis \<Rightarrow> (exc + repo_map) \<times> repo_analysis" where
  "generate_repo_map lb root s =
     (case build_file_tree lb [] root 4 0 s of
        (Inl e, s1) \<Rightarrow> (Inl e, s1)
      | (Inr t, s1) \<Rightarrow>
          (let s2 = s1\<lparr>repo_structure := t\<rparr>;
               top_deps = sorted_deps 10 (dependencies s2)
           in (Inr \<lparr>repository_structure = repo_structure s2,
                     stat_total_files = total_files s2,
                     stat_total_lines = total_lines s2,
                     top_dependencies = top_deps,
                     repo_path = entry_name root,
                     analyzed_file_types =
                       [''.py'', ''.js'', ''.jsx'', ''.ts'', ''.tsx'', ''.json'', ''.md'']\<rparr>,
               s2)))"

section \<open>generate_repo_tour\<close>

text \<open>\<open>str(n)\<close> for a natural number and \<open>sep.join(xs)\<close>.\<close>

fun str_nat :: "nat \<Rightarrow> string" where
  "str_nat n =
     (if n < 10 then [char_of (48 + n)]
      else str_nat (n div 10) @ [char_of (48 + n mod 10)])"

declare str_nat.simps [simp del]

fun join :: "string \<Rightarrow> string list \<Rightarrow> string" where
  "join sep [] = []"
| "join sep [x] = x"
| "join sep (x # y # xs) = x @ sep @ join sep (y # xs)"

text \<open>The nested function \<open>explain_directory\<close>, one line per entry of the tree.\<close>

fun explain_directory :: "tree \<Rightarrow> nat \<Rightarrow> string" where
  "explain_directory [] level = []"
| "explain_directory ((name, info) # rest) level =
     (let indent = concat (replicate level ''  '')
      in (case info of
            DirNode children \<Rightarrow>
              indent @ ''- **'' @ name @ ''/** - Directory containing:'' @ [CHR 0x0A]
                @ explain_directory children (level + 1)
          | FileNode path a \<Rightarrow>
              (case a of
                 PythonAnalysis n is cs fs p \<Rightarrow>
                   (if cs \<noteq> []
                    then indent @ ''- **'' @ name @ ''** - Python module with ''
                           @ str_nat (length cs) @ '' classes'' @ [CHR 0x0A]
                    else indent @ ''- **'' @ name @ ''** - '' @ str_nat n @ '' lines''
                           @ [CHR 0x0A])
               | JavascriptAnalysis n is fs cs p \<Rightarrow>
                   (if fs \<noteq> []
                    then indent @ ''- **'' @ name @ ''** - JavaScript file with ''
                           @ str_nat (length fs) @ '' functions'' @ [CHR 0x0A]
                    else indent @ ''- **'' @ name @ ''** - '' @ str_nat n @ '' lines''
                           @ [CHR 0x0A])
               | _ \<Rightarrow>
                   indent @ ''- **'' @ name @ ''** - '' @ str_nat (analysis_lines a)
                     @ '' lines'' @ [CHR 0x0A])))
        @ explain_directory rest level"

fun is_file_node :: "tree_node \<Rightarrow> bool" where
  "is_file_node (FileNode path a) = True"
| "is_file_node (DirNode children) = False"

text \<open>
  The tour is a fixed template; the record holds what is substituted into it, in the
  order of the text: the two counters, the key dependencies of the header, the
  explanation of the structure, the key files and the dependency lines of the closing
  section.
\<close>

record repo_tour =
  tour_total_files :: nat
  tour_total_lines :: nat
  key_dependencies :: string
  structure_explanation :: string
  main_files :: "string list"
  dependency_lines :: "string list"

definition generate_repo_tour :: "repo_analysis \<Rightarrow> repo_tour" where
  "generate_repo_tour s =
     \<lparr>tour_total_files = total_files s,
      tour_total_lines = total_lines s,
      key_dependencies = join '', '' (sorted_deps 5 (dependencies s)),
      structure_explanation = explain_directory (repo_structure s) 0,
      main_files =
        map fst (filter (\<lambda>(name, info). is_file_node info \<and>
            name \<in> set [''main.py'', ''app.py'', ''index.js'', ''index.tsx'', ''package.json''])
          (repo_structure s)),
      dependency_lines = map (\<lambda>dep. ''- `'' @ dep @ ''`'' @ [CHR 0x0A])
                           (sorted_deps 10 (dependencies s))\<rparr>"

section \<open>clone_repository and the analyze-repo endpoint\<close>

text \<open>
  The outside world of one request: what \<open>subprocess.run\<close> of \<open>git clone\<close> into the
  fresh temporary directory does (the directory holds the checked-out repository, or git
  exits with a failure and this text on its standard error, or the call raises something
  else), and whether \<open>shutil.rmtree\<close> of the directory raises.
\<close>

datatype clone_result =
    Cloned entry
  | CalledProcessError string
  | RunError exc

record world =
  git_clone :: "string \<Rightarrow> clone_result"
  rmtree :: "entry \<Rightarrow> exc option"

text \<open>
  Whether the temporary directory made by \<open>tempfile.mkdtemp\<close> exists is returned next
  to each result.
\<close>

definition clone_repository :: "world \<Rightarrow> string \<Rightarrow> (exc + entry) \<times> bool" where
  "clone_repository w repo_url =
     (let temp_dir_exists = True
      in (case git_clone w repo_url of
            Cloned temp_dir \<Rightarrow> (Inr temp_dir, temp_dir_exists)
          | CalledProcessError stderr \<Rightarrow>
              (Inl (HTTPException 400 (''Failed to clone repository: '' @ stderr)),
               temp_dir_exists)
          | RunError e \<Rightarrow> (Inl e, temp_dir_exists)))"

text \<open>\<open>str(e)\<close>; an \<open>HTTPException\<close> prints as its status code and its detail.\<close>

fun str_exc :: "exc \<Rightarrow> string" where
  "str_exc (PermissionError m) = m"
| "str_exc (OSError m) = m"
| "str_exc (HTTPException code detail) = str_nat code @ '': '' @ detail"

text \<open>The two dictionaries that the endpoint returns.\<close>

datatype response =
    Success repo_map repo_tour string
  | Failure string

text \<open>
  The body of the \<open>try\<close> block, and the endpoint with its \<open>except Exception\<close>. An
  \<open>Inl\<close> result of the endpoint would be an exception that leaves the handler, which the
  framework answers with an error status; an \<open>Inr\<close> result is the body of an ordinary
  response.
\<close>

definition analyze_repository_body ::
  "lib \<Rightarrow> world \<Rightarrow> string \<Rightarrow> (exc + response) \<times> bool" where
  "analyze_repository_body lb w repo_url =
     (case clone_repository w repo_url of
        (Inl e, temp_dir_exists) \<Rightarrow> (Inl e, temp_dir_exists)
      | (Inr path, temp_dir_exists) \<Rightarrow>
          (case generate_repo_map lb path init_analysis of
             (Inl e, analyzer) \<Rightarrow> (Inl e, temp_dir_exists)
           | (Inr rmap, analyzer) \<Rightarrow>
               (let tour = generate_repo_tour analyzer
                in (case rmtree w path of
                      Some e \<Rightarrow> (Inl e, temp_dir_exists)
                    | None \<Rightarrow> (Inr (Success rmap tour repo_url), False)))))"

definition analyze_repository ::
  "lib \<Rightarrow> world \<Rightarrow> string \<Rightarrow> (exc + response) \<times> bool" where
  "analyze_repository lb w repo_url =
     (case analyze_repository_body lb w repo_url of
        (Inr r, temp_dir_exists) \<Rightarrow> (Inr r, temp_dir_exists)
      | (Inl e, temp_dir_exists) \<Rightarrow> (Inr (Failure (str_exc e)), temp_dir_exists))"

section \<open>The top-level rule of analyze_python_file\<close>

text \<open>
  What one node contributes to the classes and to the functions, the classes recorded
  before the \<open>i\<close>-th node of a walk, and the test a function definition passes to be
  listed.
\<close>
definition class_entries :: "py_node \<Rightarrow> py_class list" where
  "class_entries n =
     (case kind n of
        ClassDef name line \<Rightarrow>
          [\<lparr>cls_name = name, cls_line = line, cls_methods = method_names (iter_child_nodes n)\<rparr>]
      | _ \<Rightarrow> [])"

definition function_entries :: "py_node \<Rightarrow> py_function list" where
  "function_entries n =
     (case kind n of
        FunctionDef name line args \<Rightarrow> [\<lparr>fn_name = name, fn_line = line, fn_args = args\<rparr>]
      | _ \<Rightarrow> [])"

definition classes_before :: "py_node list \<Rightarrow> nat \<Rightarrow> py_class list" where
  "classes_before ns i = concat (map class_entries (take i ns))"

definition top_level :: "py_node list \<Rightarrow> nat \<Rightarrow> bool" where
  "top_level ns i \<longleftrightarrow>
     (case kind (ns ! i) of
        FunctionDef name line args \<Rightarrow> (\<forall>cls \<in> set (classes_before ns i). line < cls_line cls)
      | _ \<Rightarrow> False)"

lemma import_fold_lists:
  "fold (\<lambda>name (l, s).
           (l\<lparr>py_imports := py_imports l @ [name]\<rparr>,
            s\<lparr>dependencies := finsert (f name) (dependencies s)\<rparr>)) names (l, s)
   = (l\<lparr>py_imports := py_imports l @ names\<rparr>,
      s\<lparr>dependencies := dependencies s |\<union>| fset_of_list (map f names)\<rparr>)"
  by (induction names arbitrary: l s) auto

lemma visit_node_classes:
  "py_classes (fst (visit_node n (l, s))) = py_classes l @ class_entries n"
  by (simp add: visit_node_def class_entries_def import_fold_lists
      split: node_kind.splits option.splits)

lemma visit_node_functions:
  "py_functions (fst (visit_node n (l, s))) =
     py_functions l @
       (case kind n of
          FunctionDef name line args \<Rightarrow>
            (if \<forall>cls \<in> set (py_classes l). line < cls_line cls then function_entries n else [])
        | _ \<Rightarrow> [])"
  by (auto simp add: visit_node_def function_entries_def import_fold_lists list_ex_iff
      split: node_kind.splits option.splits)

lemma fold_visit_classes:
  "py_classes (fst (fold visit_node ns (l, s))) = py_classes l @ concat (map class_entries ns)"
proof (induction ns rule: rev_induct)
  case Nil
  show ?case by simp
next
  case (snoc n ns)
  obtain l1 s1 where f: "fold visit_node ns (l, s) = (l1, s1)" by force
  with snoc show ?case by (simp add: visit_node_classes)
qed

lemma fold_visit_functions:
  "py_functions (fst (fold visit_node ns (empty_lists, s))) =
     concat (map (\<lambda>i. if top_level ns i then function_entries (ns ! i) else []) [0..<length ns])"
proof (induction ns rule: rev_induct)
  case Nil
  show ?case by (simp add: empty_lists_def)
next
  case (snoc n ns)
  obtain l1 s1 where f: "fold visit_node ns (empty_lists, s) = (l1, s1)" by force
  have cl: "py_classes l1 = classes_before (ns @ [n]) (length ns)"
    using fold_visit_classes [of ns empty_lists s] f
    by (simp add: classes_before_def empty_lists_def)
  have old: "map (\<lambda>i. if top_level (ns @ [n]) i then function_entries ((ns @ [n]) ! i) else [])
                 [0..<length ns]
             = map (\<lambda>i. if top_level ns i then function_entries (ns ! i) else []) [0..<length ns]"
  proof (rule map_cong)
    fix i assume "i \<in> set [0..<length ns]"
    then have i: "i < length ns" by simp
    then have "classes_before (ns @ [n]) i = classes_before ns i"
      by (simp add: classes_before_def)
    with i have "top_level (ns @ [n]) i = top_level ns i"
      by (simp add: top_level_def nth_append split: node_kind.splits)
    with i show "(if top_level (ns @ [n]) i then function_entries ((ns @ [n]) ! i) else [])
                 = (if top_level ns i then function_entries (ns ! i) else [])"
      by (simp add: nth_append)
  qed simp
  have new: "(case kind n of
                FunctionDef name line args \<Rightarrow>
                  (if \<forall>cls \<in> set (py_classes l1). line < cls_line cls
                   then function_entries n else [])
              | _ \<Rightarrow> [])
             = (if top_level (ns @ [n]) (length ns)
                then function_entries ((ns @ [n]) ! length ns) else [])"
    by (simp add: top_level_def cl function_entries_def split: node_kind.splits)
  show ?case
    using snoc f by (simp add: visit_node_functions old new del: upt_Suc) (simp add: old)
qed


fun analysis_classes :: "analysis \<Rightarrow> py_class list" where
  "analysis_classes (PythonAnalysis n is cs fs p) = cs"
| "analysis_classes a = []"

fun analysis_functions :: "analysis \<Rightarrow> py_function list" where
  "analysis_functions (PythonAnalysis n is cs fs p) = fs"
| "analysis_functions a = []"

definition scenario_source :: string where
  "scenario_source =
     ''def baz():'' @ [CHR 0x0A] @ ''    pass'' @ [CHR 0x0A] @ ''class Foo:'' @ [CHR 0x0A]
       @ ''    def bar(self):'' @ [CHR 0x0A] @ ''        pass'' @ [CHR 0x0A]"

definition scenario_ast :: py_node where
  "scenario_ast =
     Node Other
       [Node (FunctionDef ''baz'' 1 []) [Node Other [], Node Other []],
        Node (ClassDef ''Foo'' 3)
          [Node (FunctionDef ''bar'' 4 [''self''])
             [Node Other [Node Other []], Node Other []]]]"

definition scenario_lib :: lib where
  "scenario_lib =
     \<lparr>ast_parse = (\<lambda>content. if content = scenario_source then Inr scenario_ast
                                else Inl ''invalid syntax''),
      find_imports = (\<lambda>content. []),
      find_functions = (\<lambda>content. []),
      find_classes = (\<lambda>content. [])\<rparr>"

lemma analyze_python_file_parsed:
  assumes "ast_parse lb content = Inr t"
  shows "fst (analyze_python_file lb (Text content) s) =
           PythonAnalysis (length (splitlines content))
             (py_imports (fst (fold visit_node (walk [t]) (empty_lists, s))))
             (py_classes (fst (fold visit_node (walk [t]) (empty_lists, s))))
             (py_functions (fst (fold visit_node (walk [t]) (empty_lists, s))))
             (content_preview content)"
  using assms by (simp add: analyze_python_file_def Let_def split: prod.splits)

lemma walk_scenario:
  "walk [scenario_ast] =
     [scenario_ast,
      Node (FunctionDef ''baz'' 1 []) [Node Other [], Node Other []],
      Node (ClassDef ''Foo'' 3)
          [Node (FunctionDef ''bar'' 4 [''self''])
             [Node Other [Node Other []], Node Other []]],
      Node Other [], Node Other [],
      Node (FunctionDef ''bar'' 4 [''self'']) [Node Other [Node Other []], Node Other []],
      Node Other [Node Other []], Node Other [], Node Other []]"
  by (simp add: scenario_ast_def)

lemma fold_scenario:
  "fst (fold visit_node (walk [scenario_ast]) (empty_lists, s)) =
     \<lparr>py_imports = [],
      py_classes = [\<lparr>cls_name = ''Foo'', cls_line = 3, cls_methods = [''bar'']\<rparr>],
      py_functions = [\<lparr>fn_name = ''baz'', fn_line = 1, fn_args = []\<rparr>]\<rparr>"
  unfolding walk_scenario
  by (simp add: scenario_ast_def visit_node_def empty_lists_def method_names_def)

text \<open>
  C3. When the file parses, the functions of the summary are the function definitions,
  in the order of the walk, whose line is less than the line of every class recorded at
  the nodes walked before them, and the classes are the class definitions in the order of
  the walk. For the file with \<open>baz\<close> at line 1 and the class \<open>Foo\<close> at line 3 with the
  method \<open>bar\<close>, the functions are \<open>[baz]\<close> and the classes are \<open>[Foo]\<close> with the
  methods \<open>[bar]\<close>.
\<close>

theorem top_level_callables:
  assumes "ast_parse lb content = Inr t"
  shows "analysis_functions (fst (analyze_python_file lb (Text content) s)) =
           concat (map (\<lambda>i. if top_level (walk [t]) i then function_entries (walk [t] ! i) else [])
                     [0..<length (walk [t])])
         \<and> analysis_classes (fst (analyze_python_file lb (Text content) s)) =
             concat (map class_entries (walk [t]))
         \<and> (t = scenario_ast \<longrightarrow>
              fst (analyze_python_file lb (Text content) s) =
                PythonAnalysis (length (splitlines content)) []
                  [\<lparr>cls_name = ''Foo'', cls_line = 3, cls_methods = [''bar'']\<rparr>]
                  [\<lparr>fn_name = ''baz'', fn_line = 1, fn_args = []\<rparr>]
                  (content_preview content))"
proof (intro conjI impI)
  show "analysis_functions (fst (analyze_python_file lb (Text content) s)) =
           concat (map (\<lambda>i. if top_level (walk [t]) i then function_entries (walk [t] ! i) else [])
                     [0..<length (walk [t])])"
    by (simp add: analyze_python_file_parsed [OF assms] fold_visit_functions del: walk.simps)
  show "analysis_classes (fst (analyze_python_file lb (Text content) s)) =
             concat (map class_entries (walk [t]))"
    using fold_visit_classes [of "walk [t]" empty_lists s]
    by (simp add: analyze_python_file_parsed [OF assms] empty_lists_def del: walk.simps)
next
  assume "t = scenario_ast"
  with assms have "ast_parse lb content = Inr scenario_ast" by simp
  then show "fst (analyze_python_file lb (Text content) s) =
                PythonAnalysis (length (splitlines content)) []
                  [\<lparr>cls_name = ''Foo'', cls_line = 3, cls_methods = [''bar'']\<rparr>]
                  [\<lparr>fn_name = ''baz'', fn_line = 1, fn_args = []\<rparr>]
                  (content_preview content)"
    by (simp add: analyze_python_file_parsed fold_scenario del: walk.simps)
qed

theorem top_level_callables_witness:
  "ast_parse scenario_lib scenario_source = Inr scenario_ast
   \<and> analysis_functions (fst (analyze_python_file scenario_lib (Text scenario_source) init_analysis))
       = [\<lparr>fn_name = ''baz'', fn_line = 1, fn_args = []\<rparr>]
   \<and> analysis_classes (fst (analyze_python_file scenario_lib (Text scenario_source) init_analysis))
       = [\<lparr>cls_name = ''Foo'', cls_line = 3, cls_methods = [''bar'']\<rparr>]"
proof -
  have p: "ast_parse scenario_lib scenario_source = Inr scenario_ast"
    by (simp add: scenario_lib_def)
  show ?thesis
    using p top_level_callables [OF p, of init_analysis] by simp
qed

section \<open>Root identifiers of the imports\<close>

text \<open>The module names that the loop reads at one node.\<close>
definition module_names :: "py_node \<Rightarrow> string list" where
  "module_names n =
     (case kind n of
        Import names \<Rightarrow> names
      | ImportFrom module \<Rightarrow> (case module of None \<Rightarrow> [] | Some m \<Rightarrow> if m = [] then [] else [m])
      | _ \<Rightarrow> [])"

definition os_source :: string where
  "os_source = ''import os'' @ [CHR 0x0A] @ ''import os.path'' @ [CHR 0x0A]"

definition os_ast :: py_node where
  "os_ast =
     Node Other
       [Node (Import [''os'']) [Node Other []],
        Node (Import [''os.path'']) [Node Other []]]"

definition os_lib :: lib where
  "os_lib =
     \<lparr>ast_parse = (\<lambda>content. if content = os_source then Inr os_ast else Inl ''invalid syntax''),
      find_imports = (\<lambda>content. [''react/hooks'', ''react'', ''./util'']),
      find_functions = (\<lambda>content. []),
      find_classes = (\<lambda>content. [])\<rparr>"

lemma split_not_Nil: "split sep s \<noteq> []"
  by (induction s) (auto split: list.splits)

lemma hd_split: "hd (split sep s) = takeWhile (\<lambda>c. c \<noteq> sep) s"
  using split_not_Nil [of sep] by (induction s) (auto split: list.splits)

lemma slash_root:
  "(if CHR ''/'' \<in> set imp then hd (split CHR ''/'' imp) else imp)
     = takeWhile (\<lambda>c. c \<noteq> CHR ''/'') imp"
proof (cases "CHR ''/'' \<in> set imp")
  case True
  then show ?thesis by (simp only: if_True hd_split)
next
  case False
  then have "\<forall>c \<in> set imp. c \<noteq> CHR ''/''" by blast
  then have "takeWhile (\<lambda>c. c \<noteq> CHR ''/'') imp = imp"
    by (simp only: takeWhile_eq_all_conv)
  with False show ?thesis by (simp only: if_False)
qed

lemma visit_node_deps:
  "dependencies (snd (visit_node n (l, s))) =
     dependencies s |\<union>| fset_of_list (map (\<lambda>m. hd (split CHR ''.'' m)) (module_names n))"
  by (auto simp add: visit_node_def module_names_def import_fold_lists
      split: node_kind.splits option.splits)

lemma fold_visit_deps:
  "dependencies (snd (fold visit_node ns (l, s))) =
     dependencies s |\<union>|
       fset_of_list (map (\<lambda>m. hd (split CHR ''.'' m)) (concat (map module_names ns)))"
proof (induction ns rule: rev_induct)
  case Nil
  show ?case by simp
next
  case (snoc n ns)
  obtain l1 s1 where f: "fold visit_node ns (l, s) = (l1, s1)" by force
  with snoc show ?case by (auto simp add: visit_node_deps)
qed

lemma js_fold_deps:
  "dependencies (fold (\<lambda>imp s. s\<lparr>dependencies := finsert (f imp) (dependencies s)\<rparr>) imps s)
     = dependencies s |\<union>| fset_of_list (map f imps)"
  by (induction imps arbitrary: s) auto


text \<open>
  C6. A Python file that parses adds to the dependency set the part before the first dot
  of every imported module name met on the walk, a JavaScript file the part before the
  first slash of every import path found, and nothing else; the dependencies are a set.
  A Python file that imports \<open>os\<close> and \<open>os.path\<close> leaves exactly \<open>os\<close> in the set of a
  fresh analyser.
\<close>

theorem root_identifiers:
  "(ast_parse lb content = Inr t \<longrightarrow>
      dependencies (snd (analyze_python_file lb (Text content) s)) =
        dependencies s |\<union>|
          fset_of_list (map (takeWhile (\<lambda>c. c \<noteq> CHR ''.'')) (concat (map module_names (walk [t])))))
   \<and> dependencies (snd (analyze_javascript_file lb (Text content) s)) =
        dependencies s |\<union>|
          fset_of_list (map (takeWhile (\<lambda>c. c \<noteq> CHR ''/'')) (find_imports lb content))
   \<and> (ast_parse lb content = Inr os_ast \<longrightarrow>
        dependencies (snd (analyze_python_file lb (Text content) init_analysis)) = {|''os''|})"
proof (intro conjI impI)
  assume p: "ast_parse lb content = Inr t"
  obtain l1 s1 where f: "fold visit_node (walk [t]) (empty_lists, s) = (l1, s1)" by force
  have "dependencies s1 = dependencies s |\<union>|
          fset_of_list (map (\<lambda>m. hd (split CHR ''.'' m)) (concat (map module_names (walk [t]))))"
    using fold_visit_deps [of "walk [t]" empty_lists s] f by simp
  then show "dependencies (snd (analyze_python_file lb (Text content) s)) =
        dependencies s |\<union>|
          fset_of_list (map (takeWhile (\<lambda>c. c \<noteq> CHR ''.'')) (concat (map module_names (walk [t]))))"
    using p f by (simp add: analyze_python_file_def Let_def hd_split del: walk.simps)
next
  show "dependencies (snd (analyze_javascript_file lb (Text content) s)) =
        dependencies s |\<union>|
          fset_of_list (map (takeWhile (\<lambda>c. c \<noteq> CHR ''/'')) (find_imports lb content))"
    by (simp add: analyze_javascript_file_def Let_def js_fold_deps slash_root)
next
  assume p: "ast_parse lb content = Inr os_ast"
  obtain l1 s1 where f: "fold visit_node (walk [os_ast]) (empty_lists, init_analysis) = (l1, s1)"
    by force
  have "dependencies s1 = {|''os''|}"
    using fold_visit_deps [of "walk [os_ast]" empty_lists init_analysis] f
    by (simp add: os_ast_def module_names_def init_analysis_def)
  then show "dependencies (snd (analyze_python_file lb (Text content) init_analysis)) = {|''os''|}"
    using p f by (simp add: analyze_python_file_def Let_def del: walk.simps)
qed


theorem root_identifiers_witness:
  "ast_parse os_lib os_source = Inr os_ast
   \<and> dependencies (snd (analyze_python_file os_lib (Text os_source) init_analysis)) = {|''os''|}
   \<and> dependencies (snd (analyze_javascript_file os_lib (Text ''x'') init_analysis))
       = {|''react'', ''.''|}"
proof -
  have p: "ast_parse os_lib os_source = Inr os_ast"
    by (simp add: os_lib_def)
  have j: "find_imports os_lib ''x'' = [''react/hooks'', ''react'', ''./util'']"
    by (simp add: os_lib_def)
  note r = root_identifiers [of os_lib _ os_ast init_analysis]
  have a: "dependencies (snd (analyze_python_file os_lib (Text os_source) init_analysis)) = {|''os''|}"
    using r [of os_source] p by blast
  have "dependencies (snd (analyze_javascript_file os_lib (Text ''x'') init_analysis)) =
        dependencies init_analysis |\<union>|
          fset_of_list (map (takeWhile (\<lambda>c. c \<noteq> CHR ''/'')) (find_imports os_lib ''x''))"
    using r [of "''x''"] by blast
  then have b: "dependencies (snd (analyze_javascript_file os_lib (Text ''x'') init_analysis))
       = {|''react'', ''.''|}"
    unfolding j by (simp add: init_analysis_def)
  from p a b show ?thesis by blast
qed

section \<open>Example inputs\<close>

text \<open>
  A library that parses the two-import file and finds the import of a one-line
  JavaScript file, and a repository with one Python file.
\<close>

definition js_source :: string where
  "js_source = ''import x from '' @ [CHR 0x22] @ ''react/hooks'' @ [CHR 0x22]"

definition example_lib :: lib where
  "example_lib =
     \<lparr>ast_parse = (\<lambda>content. if content = os_source then Inr os_ast
                                else Inl ''invalid syntax''),
      find_imports = (\<lambda>content. if content = js_source then [''react/hooks''] else []),
      find_functions = (\<lambda>content. []),
      find_classes = (\<lambda>content. [])\<rparr>"

definition py_repo :: entry where
  "py_repo = Dir ''repo'' [File ''main.py'' (Text os_source)]"

definition py_repo_tree :: tree where
  "py_repo_tree =
     [(''main.py'', FileNode ''main.py'' (PythonAnalysis 2 [''os'', ''os.path''] [] [] os_source))]"

definition py_repo_map :: repo_map where
  "py_repo_map =
     \<lparr>repository_structure = py_repo_tree,
      stat_total_files = 1, stat_total_lines = 2, top_dependencies = [''os''],
      repo_path = ''repo'',
      analyzed_file_types = [''.py'', ''.js'', ''.jsx'', ''.ts'', ''.tsx'', ''.json'', ''.md'']\<rparr>"

definition py_repo_analysis :: repo_analysis where
  "py_repo_analysis =
     \<lparr>repo_structure = py_repo_tree, dependencies = {|''os''|},
      total_lines = 2, total_files = 1\<rparr>"

lemma generate_repo_map_py_repo:
  "generate_repo_map example_lib py_repo init_analysis = (Inr py_repo_map, py_repo_analysis)"
  by code_simp

section \<open>The sorted view of the dependencies\<close>

lemma sorted_sorted_deps: "sorted (sorted_deps n deps)"
  by (simp add: sorted_deps_def sorted_list_of_fset.rep_eq sorted_wrt_take)

lemma length_sorted_deps: "length (sorted_deps n deps) \<le> n"
  by (simp add: sorted_deps_def)

lemma take_sorted_deps: "m \<le> n \<Longrightarrow> take m (sorted_deps n deps) = sorted_deps m deps"
  by (simp add: sorted_deps_def min_def)

lemma fold_finsert: "fold finsert xs A = fset_of_list xs |\<union>| A"
  by (induction xs arbitrary: A) auto

text \<open>
  C7. Whatever the set of dependencies and the order in which its elements were added,
  the view \<open>sorted(list(self.dependencies))[:n]\<close> is sorted in ascending order, has no
  duplicates, has at most \<open>n\<close> elements and holds only dependencies; the report shows
  the view for \<open>n = 10\<close>, and the header of the tour joins the view for \<open>n = 5\<close>, which
  is the first five names of the view of the report.
\<close>

theorem top_dependencies_view:
  "sorted (sorted_deps n deps) \<and> distinct (sorted_deps n deps)
   \<and> length (sorted_deps n deps) \<le> n
   \<and> set (sorted_deps n deps) \<subseteq> fset deps
   \<and> (set xs = set ys \<longrightarrow>
        sorted_deps n (fold finsert xs {||}) = sorted_deps n (fold finsert ys {||}))
   \<and> (generate_repo_map lb root s = (Inr m, s') \<longrightarrow>
        top_dependencies m = sorted_deps 10 (dependencies s')
        \<and> sorted (top_dependencies m) \<and> length (top_dependencies m) \<le> 10)
   \<and> key_dependencies (generate_repo_tour s) = join '', '' (sorted_deps 5 (dependencies s))
   \<and> sorted_deps 5 (dependencies s) = take 5 (sorted_deps 10 (dependencies s))"
proof (intro conjI impI)
  show "sorted (sorted_deps n deps)" by (rule sorted_sorted_deps)
  show "distinct (sorted_deps n deps)"
    by (simp add: sorted_deps_def sorted_list_of_fset.rep_eq)
  show "length (sorted_deps n deps) \<le> n" by (rule length_sorted_deps)
  show "set (sorted_deps n deps) \<subseteq> fset deps"
    using set_take_subset [of n "sorted_list_of_fset deps"] by (simp add: sorted_deps_def)
  show "key_dependencies (generate_repo_tour s) = join '', '' (sorted_deps 5 (dependencies s))"
    by (simp add: generate_repo_tour_def)
  show "sorted_deps 5 (dependencies s) = take 5 (sorted_deps 10 (dependencies s))"
    by (simp add: take_sorted_deps)
next
  assume "set xs = set ys"
  then have "fset_of_list xs = fset_of_list ys"
    by (simp add: fset_of_list.rep_eq fset_inject [symmetric])
  then show "sorted_deps n (fold finsert xs {||}) = sorted_deps n (fold finsert ys {||})"
    by (simp add: fold_finsert)
next
  assume g: "generate_repo_map lb root s = (Inr m, s')"
  then have t: "top_dependencies m = sorted_deps 10 (dependencies s')"
    by (auto simp: generate_repo_map_def Let_def split: prod.splits sum.splits)
  show "top_dependencies m = sorted_deps 10 (dependencies s')" by (rule t)
  show "sorted (top_dependencies m)" unfolding t by (rule sorted_sorted_deps)
  show "length (top_dependencies m) \<le> 10" unfolding t by (rule length_sorted_deps)
qed

theorem top_dependencies_view_witness:
  "set [''re'', ''os''] = set [''os'', ''re'', ''os'']
   \<and> sorted_deps 1 (fold finsert [''re'', ''os''] {||})
       = sorted_deps 1 (fold finsert [''os'', ''re'', ''os''] {||})
   \<and> generate_repo_map example_lib py_repo init_analysis = (Inr py_repo_map, py_repo_analysis)
   \<and> sorted (top_dependencies py_repo_map) \<and> length (top_dependencies py_repo_map) \<le> 10"
proof -
  have h1: "set [''re'', ''os''] = set [''os'', ''re'', ''os'']" by auto
  note t = top_dependencies_view [of 1 "{||}" "[''re'', ''os'']" "[''os'', ''re'', ''os'']"
      example_lib py_repo init_analysis py_repo_map py_repo_analysis]
  from t h1 have a: "sorted_deps 1 (fold finsert [''re'', ''os''] {||})
       = sorted_deps 1 (fold finsert [''os'', ''re'', ''os''] {||})" by blast
  from t generate_repo_map_py_repo
  have b: "sorted (top_dependencies py_repo_map) \<and> length (top_dependencies py_repo_map) \<le> 10"
    by blast
  from h1 a b generate_repo_map_py_repo show ?thesis by blast
qed

section \<open>Steps of the traversal\<close>

text \<open>
  What one call of \<open>build_file_tree\<close> and one iteration of its loop do, case by case,
  and the induction over a traversal that follows these cases.
\<close>
fun is_dir :: "entry \<Rightarrow> bool" where
  "is_dir (Dir name items) = True"
| "is_dir (NoList name e) = True"
| "is_dir e = False"

lemma build_beyond_max_depth:
  "max_depth < current_depth \<Longrightarrow>
     build_file_tree lb rel path max_depth current_depth s = (Inr [], s)"
  by (simp add: build_file_tree.simps)

lemma build_no_listing:
  "\<not> max_depth < current_depth \<Longrightarrow> iterdir path = Inl e \<Longrightarrow>
     build_file_tree lb rel path max_depth current_depth s = except_PermissionError e [] s"
  by (simp add: build_file_tree.simps)

lemma build_listing:
  "\<not> max_depth < current_depth \<Longrightarrow> iterdir path = Inr items \<Longrightarrow>
     build_file_tree lb rel path max_depth current_depth s =
       process_items lb rel max_depth current_depth (sort_key entry_name items) [] s"
  by (simp add: build_file_tree.simps)

lemma process_items_skip:
  "should_skip (entry_name item) \<Longrightarrow>
     process_items lb rel md cd (item # rest) t s = process_items lb rel md cd rest t s"
  by simp

lemma process_items_file:
  "\<not> should_skip name \<Longrightarrow>
   analyze_file lb name fd (s\<lparr>total_files := total_files s + 1\<rparr>) = (a, s1) \<Longrightarrow>
     process_items lb rel md cd (File name fd # rest) t s =
       process_items lb rel md cd rest (dict_set t name (FileNode (rel_path rel name) a)) s1"
  by simp

lemma process_items_dir:
  "\<not> should_skip (entry_name item) \<Longrightarrow> is_dir item \<Longrightarrow>
   build_file_tree lb (rel @ [entry_name item]) item md (cd + 1) s = (Inr sub, s1) \<Longrightarrow>
     process_items lb rel md cd (item # rest) t s =
       process_items lb rel md cd rest
         (if sub \<noteq> [] then dict_set t (entry_name item) (DirNode sub) else t) s1"
  by (cases item) simp_all

lemma process_items_dir_exc:
  "\<not> should_skip (entry_name item) \<Longrightarrow> is_dir item \<Longrightarrow>
   build_file_tree lb (rel @ [entry_name item]) item md (cd + 1) s = (Inl e, s1) \<Longrightarrow>
     process_items lb rel md cd (item # rest) t s = except_PermissionError e t s1"
  by (cases item) simp_all

lemma process_items_special:
  "\<not> should_skip name \<Longrightarrow>
     process_items lb rel md cd (Special name # rest) t s = process_items lb rel md cd rest t s"
  by simp

lemma process_items_nostat:
  "\<not> should_skip name \<Longrightarrow>
     process_items lb rel md cd (NoStat name e # rest) t s = except_PermissionError e t s"
  by simp

lemma traversal_induct [case_names build nil skip regular dir special nostat]:
  assumes build: "\<And>lb rel path md cd s.
      (\<And>items. \<not> md < cd \<Longrightarrow> iterdir path = Inr items \<Longrightarrow>
         Q lb rel md cd (sort_key entry_name items) [] s) \<Longrightarrow>
      P lb rel path md cd s"
    and nil: "\<And>lb rel md cd t s. Q lb rel md cd [] t s"
    and skip: "\<And>lb rel md cd item rest t s.
      should_skip (entry_name item) \<Longrightarrow> Q lb rel md cd rest t s \<Longrightarrow>
      Q lb rel md cd (item # rest) t s"
    and regular: "\<And>lb rel md cd name fd rest t s a s1.
      \<not> should_skip name \<Longrightarrow>
      analyze_file lb name fd (s\<lparr>total_files := total_files s + 1\<rparr>) = (a, s1) \<Longrightarrow>
      Q lb rel md cd rest (dict_set t name (FileNode (rel_path rel name) a)) s1 \<Longrightarrow>
      Q lb rel md cd (File name fd # rest) t s"
    and dir: "\<And>lb rel md cd item rest t s r s1.
      \<not> should_skip (entry_name item) \<Longrightarrow> is_dir item \<Longrightarrow>
      build_file_tree lb (rel @ [entry_name item]) item md (cd + 1) s = (r, s1) \<Longrightarrow>
      P lb (rel @ [entry_name item]) item md (cd + 1) s \<Longrightarrow>
      (\<And>sub. r = Inr sub \<Longrightarrow>
         Q lb rel md cd rest
           (if sub \<noteq> [] then dict_set t (entry_name item) (DirNode sub) else t) s1) \<Longrightarrow>
      Q lb rel md cd (item # rest) t s"
    and special: "\<And>lb rel md cd name rest t s.
      \<not> should_skip name \<Longrightarrow> Q lb rel md cd rest t s \<Longrightarrow>
      Q lb rel md cd (Special name # rest) t s"
    and nostat: "\<And>lb rel md cd name e rest t s.
      \<not> should_skip name \<Longrightarrow> Q lb rel md cd (NoStat name e # rest) t s"
  shows "P lb rel path md cd s" and "Q lb rel md cd items t s"
proof (induction lb rel path md cd s and lb rel md cd items t s
    rule: build_file_tree_process_items.induct)
  case (1 lb rel path md cd s)
  then show ?case by (rule build)
next
  case (2 lb rel md cd t s)
  show ?case by (rule nil)
next
  case (3 lb rel md cd item rest t s)
  show ?case
  proof (cases "should_skip (entry_name item)")
    case True
    show ?thesis by (rule skip [OF True "3.IH"(1) [OF True]])
  next
    case False
    note ns = False
    obtain r s1 where b:
      "build_file_tree lb (rel @ [entry_name item]) item md (cd + 1) s = (r, s1)"
      by force
    show ?thesis
    proof (cases item)
      case (File name fd)
      obtain a s1 where a:
        "analyze_file lb name fd (s\<lparr>total_files := total_files s + 1\<rparr>) = (a, s1)"
        by force
      from ns File have n: "\<not> should_skip name" by simp
      show ?thesis unfolding File
        by (rule regular [OF n a]) (rule "3.IH"(2) [OF ns File a [symmetric]])
    next
      case (Dir name items)
      then have d: "is_dir item" by simp
      show ?thesis
        by (rule dir [OF ns d b]) (rule "3.IH"(3) [OF ns Dir], rule "3.IH"(4) [OF ns Dir b [symmetric]])
    next
      case (NoList name e)
      then have d: "is_dir item" by simp
      show ?thesis
        by (rule dir [OF ns d b]) (rule "3.IH"(5) [OF ns NoList], rule "3.IH"(6) [OF ns NoList b [symmetric]])
    next
      case (Special name)
      from ns Special have n: "\<not> should_skip name" by simp
      show ?thesis unfolding Special
        by (rule special [OF n]) (rule "3.IH"(7) [OF ns Special])
    next
      case (NoStat name e)
      from ns NoStat have n: "\<not> should_skip name" by simp
      show ?thesis unfolding NoStat by (rule nostat [OF n])
    qed
  qed
qed

lemma except_PermissionError_Inr:
  "except_PermissionError e t0 s = (Inr t, s') \<Longrightarrow> t = t0 \<and> s' = s"
  by (cases e) simp_all

section \<open>The depth policy\<close>

text \<open>How deep the directory nodes of a tree nest, and whether one of them is empty.\<close>

fun dir_levels :: "tree \<Rightarrow> nat" where
  "dir_levels [] = 0"
| "dir_levels ((name, FileNode path a) # rest) = dir_levels rest"
| "dir_levels ((name, DirNode children) # rest) = max (Suc (dir_levels children)) (dir_levels rest)"

lemma dir_levels_dict_set_file:
  "dir_levels (dict_set t k (FileNode p a)) \<le> dir_levels t"
proof (induction t)
  case Nil
  show ?case by simp
next
  case (Cons x t)
  obtain k' v' where x: "x = (k', v')" by (cases x)
  show ?case using Cons by (cases v') (auto simp: x)
qed

lemma dir_levels_dict_set_dir:
  "dir_levels (dict_set t k (DirNode b)) \<le> max (dir_levels t) (Suc (dir_levels b))"
proof (induction t)
  case Nil
  show ?case by simp
next
  case (Cons x t)
  obtain k' v' where x: "x = (k', v')" by (cases x)
  show ?case using Cons by (cases v') (auto simp: x)
qed

lemma dir_levels_build:
  "\<forall>t s'. build_file_tree lb rel path md cd s = (Inr t, s') \<longrightarrow> dir_levels t \<le> md - cd"
  and "\<forall>t s'. process_items lb rel md cd items t0 s = (Inr t, s') \<longrightarrow> cd \<le> md \<longrightarrow>
         dir_levels t0 \<le> md - cd \<longrightarrow> dir_levels t \<le> md - cd"
proof (induction lb rel path md cd s and lb rel md cd items t0 s rule: traversal_induct)
  case (build lb rel path md cd s)
  show ?case
  proof (intro allI impI)
    fix t s' assume r: "build_file_tree lb rel path md cd s = (Inr t, s')"
    show "dir_levels t \<le> md - cd"
    proof (cases "md < cd")
      case True
      with r show ?thesis by (simp add: build_beyond_max_depth)
    next
      case False
      show ?thesis
      proof (cases "iterdir path")
        case (Inl e)
        with False r have "t = []"
          by (auto simp: build_no_listing dest: except_PermissionError_Inr)
        then show ?thesis by simp
      next
        case (Inr items)
        with False r build [OF False Inr] show ?thesis by (simp add: build_listing)
      qed
    qed
  qed
next
  case (nil lb rel md cd t s)
  show ?case by simp
next
  case (skip lb rel md cd item rest t s)
  then show ?case by (simp add: process_items_skip)
next
  case (regular lb rel md cd name fd rest t s a s1)
  show ?case
    using regular(3) dir_levels_dict_set_file [of t name "rel_path rel name" a]
    by (simp only: process_items_file [OF regular(1,2)]) (meson le_trans)
next
  case (dir lb rel md cd item rest t s r s1)
  show ?case
  proof (cases r)
    case (Inl e)
    with dir(3) have "process_items lb rel md cd (item # rest) t s = except_PermissionError e t s1"
      using process_items_dir_exc [OF dir(1,2)] by simp
    then show ?thesis by (auto dest: except_PermissionError_Inr)
  next
    case (Inr sub)
    with dir(3) have b: "build_file_tree lb (rel @ [entry_name item]) item md (cd + 1) s = (Inr sub, s1)"
      by simp
    have l: "dir_levels sub \<le> md - (cd + 1)" using dir(4) b by blast
    have "sub \<noteq> [] \<Longrightarrow> cd < md"
      using b build_beyond_max_depth [of md "cd + 1" lb "rel @ [entry_name item]" item s]
      by (cases "md < cd + 1") auto
    with l have "dir_levels t \<le> md - cd \<Longrightarrow>
        dir_levels (if sub \<noteq> [] then dict_set t (entry_name item) (DirNode sub) else t) \<le> md - cd"
      using dir_levels_dict_set_dir [of t "entry_name item" sub] by auto
    with dir(5) [OF Inr] show ?thesis
      by (simp only: process_items_dir [OF dir(1,2) b]) blast
  qed
next
  case (special lb rel md cd name rest t s)
  then show ?case by (simp add: process_items_special)
next
  case (nostat lb rel md cd name e rest t s)
  show ?case
    by (auto simp only: process_items_nostat [OF nostat] dest: except_PermissionError_Inr)
qed


fun no_empty_dirs :: "tree \<Rightarrow> bool" where
  "no_empty_dirs [] = True"
| "no_empty_dirs ((name, FileNode path a) # rest) = no_empty_dirs rest"
| "no_empty_dirs ((name, DirNode children) # rest) =
     (children \<noteq> [] \<and> no_empty_dirs children \<and> no_empty_dirs rest)"

lemma no_empty_dirs_dict_set_file:
  "no_empty_dirs t \<Longrightarrow> no_empty_dirs (dict_set t k (FileNode p a))"
proof (induction t)
  case Nil
  show ?case by simp
next
  case (Cons x t)
  obtain k' v' where x: "x = (k', v')" by (cases x)
  show ?case using Cons by (cases v') (auto simp: x)
qed

lemma no_empty_dirs_dict_set_dir:
  "no_empty_dirs t \<Longrightarrow> b \<noteq> [] \<Longrightarrow> no_empty_dirs b \<Longrightarrow>
     no_empty_dirs (dict_set t k (DirNode b))"
proof (induction t)
  case Nil
  then show ?case by simp
next
  case (Cons x t)
  obtain k' v' where x: "x = (k', v')" by (cases x)
  show ?case using Cons by (cases v') (auto simp: x)
qed

lemma no_empty_dirs_build:
  "\<forall>t s'. build_file_tree lb rel path md cd s = (Inr t, s') \<longrightarrow> no_empty_dirs t"
  and "\<forall>t s'. process_items lb rel md cd items t0 s = (Inr t, s') \<longrightarrow>
         no_empty_dirs t0 \<longrightarrow> no_empty_dirs t"
proof (induction lb rel path md cd s and lb rel md cd items t0 s rule: traversal_induct)
  case (build lb rel path md cd s)
  show ?case
  proof (intro allI impI)
    fix t s' assume r: "build_file_tree lb rel path md cd s = (Inr t, s')"
    show "no_empty_dirs t"
    proof (cases "md < cd")
      case True
      with r show ?thesis by (simp add: build_beyond_max_depth)
    next
      case False
      show ?thesis
      proof (cases "iterdir path")
        case (Inl e)
        with False r have "t = []"
          by (auto simp: build_no_listing dest: except_PermissionError_Inr)
        then show ?thesis by simp
      next
        case (Inr items)
        with False r build [OF False Inr] show ?thesis by (simp add: build_listing)
      qed
    qed
  qed
next
  case (nil lb rel md cd t s)
  show ?case by simp
next
  case (skip lb rel md cd item rest t s)
  then show ?case by (simp add: process_items_skip)
next
  case (regular lb rel md cd name fd rest t s a s1)
  show ?case
    using regular(3) no_empty_dirs_dict_set_file [of t name "rel_path rel name" a]
    by (simp only: process_items_file [OF regular(1,2)]) blast
next
  case (dir lb rel md cd item rest t s r s1)
  show ?case
  proof (cases r)
    case (Inl e)
    with dir(3) have "process_items lb rel md cd (item # rest) t s = except_PermissionError e t s1"
      using process_items_dir_exc [OF dir(1,2)] by simp
    then show ?thesis by (auto dest: except_PermissionError_Inr)
  next
    case (Inr sub)
    with dir(3) have b: "build_file_tree lb (rel @ [entry_name item]) item md (cd + 1) s = (Inr sub, s1)"
      by simp
    have l: "no_empty_dirs sub" using dir(4) b by blast
    then have "no_empty_dirs t \<Longrightarrow>
        no_empty_dirs (if sub \<noteq> [] then dict_set t (entry_name item) (DirNode sub) else t)"
      using no_empty_dirs_dict_set_dir [of t sub "entry_name item"] by auto
    with dir(5) [OF Inr] show ?thesis
      by (simp only: process_items_dir [OF dir(1,2) b]) blast
  qed
next
  case (special lb rel md cd name rest t s)
  then show ?case by (simp add: process_items_special)
next
  case (nostat lb rel md cd name e rest t s)
  show ?case
    by (auto simp only: process_items_nostat [OF nostat] dest: except_PermissionError_Inr)
qed

lemma dir_levels_0: "dir_levels t = 0 \<Longrightarrow> (name, node) \<in> set t \<Longrightarrow> is_file_node node"
proof (induction t)
  case Nil
  then show ?case by simp
next
  case (Cons x t)
  obtain k' v' where x: "x = (k', v')" by (cases x)
  show ?case using Cons by (cases v') (auto simp: x)
qed

definition nested_repo :: entry where
  "nested_repo =
     Dir ''repo''
       [Dir ''a'' [File ''f.txt'' (Text ''x''), Dir ''b'' [File ''g.txt'' (Text ''y'')]]]"

text \<open>
  C8. Called with \<open>current_depth > max_depth\<close>, \<open>build_file_tree\<close> returns the empty
  tree and leaves the analyser as it was, whatever the directory holds and whether or not
  it can be listed. A tree it returns nests directories at most \<open>max_depth - current_depth\<close>
  deep and has no directory node without children, so at \<open>current_depth = max_depth\<close> it
  holds file nodes only: the directories one level further down are not in it.
\<close>

theorem depth_policy:
  "(max_depth < current_depth \<longrightarrow>
      build_file_tree lb rel path max_depth current_depth s = (Inr [], s))
   \<and> (build_file_tree lb rel path max_depth current_depth s = (Inr t, s') \<longrightarrow>
        dir_levels t \<le> max_depth - current_depth \<and> no_empty_dirs t)
   \<and> (build_file_tree lb rel path max_depth current_depth s = (Inr t, s') \<longrightarrow>
        current_depth = max_depth \<longrightarrow> (\<forall>(name, node) \<in> set t. is_file_node node))"
proof (intro conjI impI)
  assume "max_depth < current_depth"
  then show "build_file_tree lb rel path max_depth current_depth s = (Inr [], s)"
    by (rule build_beyond_max_depth)
next
  assume r: "build_file_tree lb rel path max_depth current_depth s = (Inr t, s')"
  from r show "dir_levels t \<le> max_depth - current_depth"
    using dir_levels_build(1) by blast
  from r show "no_empty_dirs t"
    using no_empty_dirs_build(1) by blast
next
  assume r: "build_file_tree lb rel path max_depth current_depth s = (Inr t, s')"
    and "current_depth = max_depth"
  then have "dir_levels t = 0"
    using dir_levels_build(1) [of lb rel path max_depth current_depth s] by auto
  then show "\<forall>(name, node) \<in> set t. is_file_node node"
    using dir_levels_0 by blast
qed

definition nested_tree :: tree where
  "nested_tree = [(''a'', DirNode [(''f.txt'', FileNode ''a/f.txt'' (TextAnalysis 1 ''x''))])]"

definition one_file :: repo_analysis where
  "one_file = \<lparr>repo_structure = [], dependencies = {||}, total_lines = 1, total_files = 1\<rparr>"

lemma build_nested_repo:
  "build_file_tree example_lib [] nested_repo 1 0 init_analysis = (Inr nested_tree, one_file)"
  by code_simp

lemma build_nested_a:
  "build_file_tree example_lib []
     (Dir ''a'' [File ''f.txt'' (Text ''x''), Dir ''b'' [File ''g.txt'' (Text ''y'')]]) 1 1
     init_analysis
   = (Inr [(''f.txt'', FileNode ''f.txt'' (TextAnalysis 1 ''x''))], one_file)"
  by code_simp

theorem depth_policy_witness:
  "(1::nat) < 2
   \<and> build_file_tree example_lib [''a''] (Dir ''b'' [File ''g.txt'' (Text ''y'')]) 1 2 init_analysis
       = (Inr [], init_analysis)
   \<and> build_file_tree example_lib [] nested_repo 1 0 init_analysis = (Inr nested_tree, one_file)
   \<and> dir_levels nested_tree \<le> 1 - 0 \<and> no_empty_dirs nested_tree
   \<and> build_file_tree example_lib []
        (Dir ''a'' [File ''f.txt'' (Text ''x''), Dir ''b'' [File ''g.txt'' (Text ''y'')]]) 1 1
        init_analysis
       = (Inr [(''f.txt'', FileNode ''f.txt'' (TextAnalysis 1 ''x''))], one_file)
   \<and> is_file_node (FileNode ''f.txt'' (TextAnalysis 1 ''x''))"
proof -
  have h: "(1::nat) < 2" by simp
  have a: "build_file_tree example_lib [''a''] (Dir ''b'' [File ''g.txt'' (Text ''y'')]) 1 2
             init_analysis = (Inr [], init_analysis)"
    using h depth_policy [where max_depth = 1 and current_depth = 2] by blast
  have b: "dir_levels nested_tree \<le> 1 - 0 \<and> no_empty_dirs nested_tree"
    using build_nested_repo
      depth_policy [where max_depth = 1 and current_depth = 0 and t = nested_tree]
    by blast
  have "\<forall>(name, node) \<in> set [(''f.txt'', FileNode ''f.txt'' (TextAnalysis 1 ''x''))].
          is_file_node node"
    using build_nested_a
      depth_policy [where max_depth = 1 and current_depth = 1
        and t = "[(''f.txt'', FileNode ''f.txt'' (TextAnalysis 1 ''x''))]"]
    by blast
  then have c: "is_file_node (FileNode ''f.txt'' (TextAnalysis 1 ''x''))"
    by (simp del: is_file_node.simps)
  from h a b c build_nested_repo build_nested_a show ?thesis by blast
qed

section \<open>The ignore policy\<close>

text \<open>The names in a tree, at every level.\<close>

fun tree_names :: "tree \<Rightarrow> string list" where
  "tree_names [] = []"
| "tree_names ((name, FileNode path a) # rest) = name # tree_names rest"
| "tree_names ((name, DirNode children) # rest) = name # tree_names children @ tree_names rest"

lemma should_skip_iff:
  "should_skip name \<longleftrightarrow>
     (\<exists>rest. name = CHR ''.'' # rest) \<or> name = ''node_modules'' \<or> name = ''__pycache__''
       \<or> name = ''venv''"
  by (cases name) (auto simp: should_skip_def)

lemma process_items_filter:
  "process_items lb rel md cd (filter (\<lambda>e. \<not> should_skip (entry_name e)) items) t s
     = process_items lb rel md cd items t s"
proof (induction items arbitrary: t s)
  case Nil
  show ?case by simp
next
  case (Cons item items)
  show ?case
  proof (cases "should_skip (entry_name item)")
    case True
    then show ?thesis by (simp add: Cons.IH)
  next
    case False
    then show ?thesis
      by (cases item) (simp_all add: Cons.IH split: prod.splits sum.splits)
  qed
qed

lemma build_file_tree_filter:
  "build_file_tree lb rel (Dir name (filter (\<lambda>e. \<not> should_skip (entry_name e)) items)) md cd s
     = build_file_tree lb rel (Dir name items) md cd s"
  by (simp add: build_file_tree.simps filter_sort [symmetric] process_items_filter)

lemma tree_names_dict_set_file:
  "set (tree_names (dict_set t k (FileNode p a))) \<subseteq> insert k (set (tree_names t))"
proof (induction t)
  case Nil
  show ?case by simp
next
  case (Cons x t)
  obtain k' v' where x: "x = (k', v')" by (cases x)
  show ?case using Cons by (cases v') (auto simp: x)
qed

lemma tree_names_dict_set_dir:
  "set (tree_names (dict_set t k (DirNode b)))
     \<subseteq> insert k (set (tree_names b) \<union> set (tree_names t))"
proof (induction t)
  case Nil
  show ?case by simp
next
  case (Cons x t)
  obtain k' v' where x: "x = (k', v')" by (cases x)
  show ?case using Cons by (cases v') (auto simp: x)
qed

lemma tree_names_build:
  "\<forall>t s'. build_file_tree lb rel path md cd s = (Inr t, s') \<longrightarrow>
     (\<forall>n \<in> set (tree_names t). \<not> should_skip n)"
  and "\<forall>t s'. process_items lb rel md cd items t0 s = (Inr t, s') \<longrightarrow>
         (\<forall>n \<in> set (tree_names t0). \<not> should_skip n) \<longrightarrow>
         (\<forall>n \<in> set (tree_names t). \<not> should_skip n)"
proof (induction lb rel path md cd s and lb rel md cd items t0 s rule: traversal_induct)
  case (build lb rel path md cd s)
  show ?case
  proof (intro allI impI)
    fix t s' assume r: "build_file_tree lb rel path md cd s = (Inr t, s')"
    show "\<forall>n \<in> set (tree_names t). \<not> should_skip n"
    proof (cases "md < cd")
      case True
      with r show ?thesis by (simp add: build_beyond_max_depth)
    next
      case False
      show ?thesis
      proof (cases "iterdir path")
        case (Inl e)
        with False r have "t = []"
          by (auto simp: build_no_listing dest: except_PermissionError_Inr)
        then show ?thesis by simp
      next
        case (Inr items)
        with False r build [OF False Inr] show ?thesis by (simp add: build_listing)
      qed
    qed
  qed
next
  case (nil lb rel md cd t s)
  show ?case by simp
next
  case (skip lb rel md cd item rest t s)
  then show ?case by (simp add: process_items_skip)
next
  case (regular lb rel md cd name fd rest t s a s1)
  have "(\<forall>n \<in> set (tree_names t). \<not> should_skip n) \<Longrightarrow>
        (\<forall>n \<in> set (tree_names (dict_set t name (FileNode (rel_path rel name) a))).
           \<not> should_skip n)"
    using tree_names_dict_set_file [of t name "rel_path rel name" a] regular(1) by blast
  with regular(3) show ?case
    by (simp only: process_items_file [OF regular(1,2)]) blast
next
  case (dir lb rel md cd item rest t s r s1)
  show ?case
  proof (cases r)
    case (Inl e)
    with dir(3) have "process_items lb rel md cd (item # rest) t s = except_PermissionError e t s1"
      using process_items_dir_exc [OF dir(1,2)] by simp
    then show ?thesis by (auto dest: except_PermissionError_Inr)
  next
    case (Inr sub)
    with dir(3) have b: "build_file_tree lb (rel @ [entry_name item]) item md (cd + 1) s = (Inr sub, s1)"
      by simp
    have l: "\<forall>n \<in> set (tree_names sub). \<not> should_skip n" using dir(4) b by blast
    have "(\<forall>n \<in> set (tree_names t). \<not> should_skip n) \<Longrightarrow>
        (\<forall>n \<in> set (tree_names
             (if sub \<noteq> [] then dict_set t (entry_name item) (DirNode sub) else t)).
           \<not> should_skip n)"
      using tree_names_dict_set_dir [of t "entry_name item" sub] l dir(1) by auto
    with dir(5) [OF Inr] show ?thesis
      by (simp only: process_items_dir [OF dir(1,2) b]) blast
  qed
next
  case (special lb rel md cd name rest t s)
  then show ?case by (simp add: process_items_special)
next
  case (nostat lb rel md cd name e rest t s)
  show ?case
    by (auto simp only: process_items_nostat [OF nostat] dest: except_PermissionError_Inr)
qed

definition ignored_repo :: entry where
  "ignored_repo =
     Dir ''repo''
       [Dir ''.git'' [File ''config'' (Text ''x'')],
        NoList ''venv'' (OSError ''Input/output error''),
        File ''a.txt'' (Text ''x''),
        Dir ''node_modules'' [File ''dep.js'' (Text js_source)],
        File ''.env'' (Text ''secret'')]"

text \<open>
  C9. An entry is skipped when its name begins with a dot or is \<open>node_modules\<close>,
  \<open>__pycache__\<close> or \<open>venv\<close>. Skipped entries have no effect: for every directory, depth
  and analyser state, the tree, the counters, the dependencies and the exception are
  those of the same directory without them, whatever the skipped entries are or hold.
  No name in a returned tree, at any level, is a skipped one.
\<close>

theorem ignore_policy:
  "(should_skip name \<longleftrightarrow>
      (\<exists>rest. name = CHR ''.'' # rest) \<or> name = ''node_modules'' \<or> name = ''__pycache__''
        \<or> name = ''venv'')
   \<and> build_file_tree lb rel (Dir dname (filter (\<lambda>e. \<not> should_skip (entry_name e)) items))
         max_depth current_depth s
       = build_file_tree lb rel (Dir dname items) max_depth current_depth s
   \<and> (build_file_tree lb rel path max_depth current_depth s = (Inr t, s') \<longrightarrow>
        (\<forall>n \<in> set (tree_names t). \<not> should_skip n))"
proof (intro conjI)
  show "should_skip name \<longleftrightarrow>
      (\<exists>rest. name = CHR ''.'' # rest) \<or> name = ''node_modules'' \<or> name = ''__pycache__''
        \<or> name = ''venv''"
    by (rule should_skip_iff)
  show "build_file_tree lb rel (Dir dname (filter (\<lambda>e. \<not> should_skip (entry_name e)) items))
         max_depth current_depth s
       = build_file_tree lb rel (Dir dname items) max_depth current_depth s"
    by (rule build_file_tree_filter)
  show "build_file_tree lb rel path max_depth current_depth s = (Inr t, s') \<longrightarrow>
        (\<forall>n \<in> set (tree_names t). \<not> should_skip n)"
    using tree_names_build(1) by blast
qed

lemma build_ignored_repo:
  "build_file_tree example_lib [] ignored_repo 4 0 init_analysis
     = (Inr [(''a.txt'', FileNode ''a.txt'' (TextAnalysis 1 ''x''))], one_file)"
  by code_simp

theorem ignore_policy_witness:
  "build_file_tree example_lib [] ignored_repo 4 0 init_analysis
     = (Inr [(''a.txt'', FileNode ''a.txt'' (TextAnalysis 1 ''x''))], one_file)
   \<and> build_file_tree example_lib [] (Dir ''repo'' [File ''a.txt'' (Text ''x'')]) 4 0 init_analysis
     = (Inr [(''a.txt'', FileNode ''a.txt'' (TextAnalysis 1 ''x''))], one_file)
   \<and> \<not> should_skip ''a.txt''"
proof -
  have f: "filter (\<lambda>e. \<not> should_skip (entry_name e))
             [Dir ''.git'' [File ''config'' (Text ''x'')],
              NoList ''venv'' (OSError ''Input/output error''),
              File ''a.txt'' (Text ''x''),
              Dir ''node_modules'' [File ''dep.js'' (Text js_source)],
              File ''.env'' (Text ''secret'')]
           = [File ''a.txt'' (Text ''x'')]"
    by (simp add: should_skip_def)
  have "build_file_tree example_lib []
          (Dir ''repo'' (filter (\<lambda>e. \<not> should_skip (entry_name e))
             [Dir ''.git'' [File ''config'' (Text ''x'')],
              NoList ''venv'' (OSError ''Input/output error''),
              File ''a.txt'' (Text ''x''),
              Dir ''node_modules'' [File ''dep.js'' (Text js_source)],
              File ''.env'' (Text ''secret'')])) 4 0 init_analysis
        = build_file_tree example_lib [] ignored_repo 4 0 init_analysis"
    unfolding ignored_repo_def by (rule ignore_policy [THEN conjunct2, THEN conjunct1])
  then have a: "build_file_tree example_lib [] (Dir ''repo'' [File ''a.txt'' (Text ''x'')]) 4 0
             init_analysis
           = (Inr [(''a.txt'', FileNode ''a.txt'' (TextAnalysis 1 ''x''))], one_file)"
    unfolding f build_ignored_repo .
  have "\<forall>n \<in> set (tree_names [(''a.txt'', FileNode ''a.txt'' (TextAnalysis 1 ''x''))]).
          \<not> should_skip n"
    using build_ignored_repo
    by (rule ignore_policy [THEN conjunct2, THEN conjunct2, THEN mp])
  then have b: "\<not> should_skip ''a.txt''" by (simp del: should_skip_def)
  from build_ignored_repo a b show ?thesis by blast
qed

section \<open>The statistics of the report\<close>

text \<open>
  The file nodes of a tree, the sum of their \<open>lines\<close> fields, and directories whose
  entries have distinct names, as those of a file system do.
\<close>

fun count_files :: "tree \<Rightarrow> nat" where
  "count_files [] = 0"
| "count_files ((name, FileNode path a) # rest) = Suc (count_files rest)"
| "count_files ((name, DirNode children) # rest) = count_files children + count_files rest"

fun sum_lines :: "tree \<Rightarrow> nat" where
  "sum_lines [] = 0"
| "sum_lines ((name, FileNode path a) # rest) = analysis_lines a + sum_lines rest"
| "sum_lines ((name, DirNode children) # rest) = sum_lines children + sum_lines rest"

fun distinct_names :: "entry \<Rightarrow> bool" where
  "distinct_names (Dir name items) =
     (distinct (map entry_name items) \<and> (\<forall>e \<in> set items. distinct_names e))"
| "distinct_names e = True"

lemma dict_set_new: "k \<notin> fst ` set d \<Longrightarrow> dict_set d k v = d @ [(k, v)]"
  by (induction d) auto

lemma count_files_append: "count_files (t @ u) = count_files t + count_files u"
proof (induction t)
  case Nil
  show ?case by simp
next
  case (Cons x t)
  obtain k v where x: "x = (k, v)" by (cases x)
  show ?case using Cons by (cases v) (simp_all add: x)
qed

lemma sum_lines_append: "sum_lines (t @ u) = sum_lines t + sum_lines u"
proof (induction t)
  case Nil
  show ?case by simp
next
  case (Cons x t)
  obtain k v where x: "x = (k, v)" by (cases x)
  show ?case using Cons by (cases v) (simp_all add: x)
qed

lemma visit_node_counters:
  "total_files (snd (visit_node n (l, s))) = total_files s
   \<and> total_lines (snd (visit_node n (l, s))) = total_lines s"
  by (simp add: visit_node_def import_fold_lists split: node_kind.splits option.splits)

lemma fold_visit_counters:
  "total_files (snd (fold visit_node ns (l, s))) = total_files s
   \<and> total_lines (snd (fold visit_node ns (l, s))) = total_lines s"
proof (induction ns rule: rev_induct)
  case Nil
  show ?case by simp
next
  case (snoc n ns)
  obtain l1 s1 where f: "fold visit_node ns (l, s) = (l1, s1)" by force
  with snoc visit_node_counters [of n l1 s1] show ?case by simp
qed

lemma js_fold_total_files:
  "total_files (fold (\<lambda>imp s. s\<lparr>dependencies := finsert (f imp) (dependencies s)\<rparr>) imps s)
     = total_files s"
  by (induction imps arbitrary: s) auto

lemma js_fold_total_lines:
  "total_lines (fold (\<lambda>imp s. s\<lparr>dependencies := finsert (f imp) (dependencies s)\<rparr>) imps s)
     = total_lines s"
  by (induction imps arbitrary: s) auto

lemma analyze_python_file_counters:
  assumes "analyze_python_file lb fd s = (a, s1)"
  shows "total_files s1 = total_files s \<and> total_lines s1 = total_lines s + analysis_lines a"
proof (cases fd)
  case (Unreadable e)
  with assms show ?thesis by (auto simp: analyze_python_file_def)
next
  case (Text content)
  show ?thesis
  proof (cases "ast_parse lb content")
    case (Inl e)
    with assms Text show ?thesis by (auto simp: analyze_python_file_def)
  next
    case (Inr t)
    obtain l2 s2 where f: "fold visit_node (walk [t]) (empty_lists, s) = (l2, s2)" by force
    with fold_visit_counters [of "walk [t]" empty_lists s]
    have "total_files s2 = total_files s \<and> total_lines s2 = total_lines s" by simp
    with assms Text Inr f show ?thesis
      by (auto simp: analyze_python_file_def Let_def simp del: walk.simps)
  qed
qed

lemma analyze_javascript_file_counters:
  assumes "analyze_javascript_file lb fd s = (a, s1)"
  shows "total_files s1 = total_files s \<and> total_lines s1 = total_lines s + analysis_lines a"
  using assms
  by (cases fd)
    (auto simp: analyze_javascript_file_def Let_def js_fold_total_files js_fold_total_lines)

lemma analyze_file_counters:
  assumes "analyze_file lb name fd s = (a, s1)"
  shows "total_files s1 = total_files s \<and> total_lines s1 = total_lines s + analysis_lines a"
proof (cases "lower (suffix name) = ''.py''")
  case True
  with assms have "analyze_python_file lb fd s = (a, s1)"
    by (simp add: analyze_file_def)
  then show ?thesis by (rule analyze_python_file_counters)
next
  case False
  note npy = False
  show ?thesis
  proof (cases "lower (suffix name) \<in> set [''.js'', ''.jsx'', ''.ts'', ''.tsx'']")
    case True
    with assms npy have "analyze_javascript_file lb fd s = (a, s1)"
      by (simp add: analyze_file_def)
    then show ?thesis by (rule analyze_javascript_file_counters)
  next
    case False
    with assms npy show ?thesis
      by (cases fd) (auto simp: analyze_file_def Let_def)
  qed
qed


lemma distinct_map_sort_key: "distinct (map f (sort_key f xs)) = distinct (map f xs)"
proof -
  have "mset (map f (sort_key f xs)) = mset (map f xs)" by simp
  then show ?thesis by (rule mset_eq_imp_distinct_iff)
qed

lemma iterdir_Inr: "iterdir path = Inr items \<Longrightarrow> \<exists>name. path = Dir name items"
  by (cases path) simp_all

lemma except_PermissionError_Inr_exc:
  "except_PermissionError e t0 s = (Inr t, s') \<Longrightarrow> \<exists>m. e = PermissionError m"
  by (cases e) simp_all

lemma except_PermissionError_Inl:
  "except_PermissionError e t0 s \<noteq> (Inl (PermissionError m), s')"
  by (cases e) simp_all

lemma never_PermissionError:
  "\<forall>m s'. build_file_tree lb rel path md cd s \<noteq> (Inl (PermissionError m), s')"
  and "\<forall>m s'. process_items lb rel md cd items t0 s \<noteq> (Inl (PermissionError m), s')"
proof (induction lb rel path md cd s and lb rel md cd items t0 s rule: traversal_induct)
  case (build lb rel path md cd s)
  show ?case
  proof (cases "md < cd")
    case True
    then show ?thesis by (simp add: build_beyond_max_depth)
  next
    case False
    show ?thesis
    proof (cases "iterdir path")
      case (Inl e)
      with False show ?thesis by (simp add: build_no_listing except_PermissionError_Inl)
    next
      case (Inr items)
      with False build [OF False Inr] show ?thesis by (simp add: build_listing)
    qed
  qed
next
  case (nil lb rel md cd t s)
  show ?case by simp
next
  case (skip lb rel md cd item rest t s)
  then show ?case by (simp add: process_items_skip)
next
  case (regular lb rel md cd name fd rest t s a s1)
  from regular(3) show ?case unfolding process_items_file [OF regular(1,2)] .
next
  case (dir lb rel md cd item rest t s r s1)
  show ?case
  proof (cases r)
    case (Inl e)
    with dir(3) have "process_items lb rel md cd (item # rest) t s = except_PermissionError e t s1"
      using process_items_dir_exc [OF dir(1,2)] by simp
    then show ?thesis by (simp only: except_PermissionError_Inl) simp
  next
    case (Inr sub)
    with dir(3) have b: "build_file_tree lb (rel @ [entry_name item]) item md (cd + 1) s = (Inr sub, s1)"
      by simp
    from dir(5) [OF Inr] show ?thesis
      unfolding process_items_dir [OF dir(1,2) b] .
  qed
next
  case (special lb rel md cd name rest t s)
  then show ?case by (simp add: process_items_special)
next
  case (nostat lb rel md cd name e rest t s)
  show ?case
    by (simp only: process_items_nostat [OF nostat] except_PermissionError_Inl) simp
qed

lemma counters_build:
  "distinct_names path \<longrightarrow>
     (\<forall>t s'. build_file_tree lb rel path md cd s = (Inr t, s') \<longrightarrow>
        total_files s' = total_files s + count_files t
        \<and> total_lines s' = total_lines s + sum_lines t)"
  and "(\<forall>e \<in> set items. distinct_names e) \<longrightarrow> distinct (map entry_name items) \<longrightarrow>
       fst ` set t0 \<inter> entry_name ` set items = {} \<longrightarrow>
     (\<forall>t s'. process_items lb rel md cd items t0 s = (Inr t, s') \<longrightarrow>
        total_files s' + count_files t0 = total_files s + count_files t
        \<and> total_lines s' + sum_lines t0 = total_lines s + sum_lines t)"
proof (induction lb rel path md cd s and lb rel md cd items t0 s rule: traversal_induct)
  case (build lb rel path md cd s)
  show ?case
  proof (intro allI impI)
    fix t s'
    assume d: "distinct_names path"
      and r: "build_file_tree lb rel path md cd s = (Inr t, s')"
    show "total_files s' = total_files s + count_files t
        \<and> total_lines s' = total_lines s + sum_lines t"
    proof (cases "md < cd")
      case True
      with r show ?thesis by (simp add: build_beyond_max_depth)
    next
      case False
      show ?thesis
      proof (cases "iterdir path")
        case (Inl e)
        with False r have "t = [] \<and> s' = s"
          by (auto simp: build_no_listing dest: except_PermissionError_Inr)
        then show ?thesis by simp
      next
        case (Inr items)
        then obtain name where p: "path = Dir name items" using iterdir_Inr by blast
        from d p have d1: "\<forall>e \<in> set (sort_key entry_name items). distinct_names e"
          and d2: "distinct (map entry_name (sort_key entry_name items))"
          by (simp_all add: distinct_map_sort_key)
        from r False Inr
        have "process_items lb rel md cd (sort_key entry_name items) [] s = (Inr t, s')"
          by (simp add: build_listing)
        with build [OF False Inr] d1 d2 show ?thesis by simp
      qed
    qed
  qed
next
  case (nil lb rel md cd t s)
  show ?case by simp
next
  case (skip lb rel md cd item rest t s)
  then show ?case by (simp add: process_items_skip)
next
  case (regular lb rel md cd name fd rest t s a s1)
  show ?case
  proof (intro allI impI)
    fix t' s'
    assume d1: "\<forall>e \<in> set (File name fd # rest). distinct_names e"
      and d2: "distinct (map entry_name (File name fd # rest))"
      and d3: "fst ` set t \<inter> entry_name ` set (File name fd # rest) = {}"
      and r: "process_items lb rel md cd (File name fd # rest) t s = (Inr t', s')"
    let ?t1 = "dict_set t name (FileNode (rel_path rel name) a)"
    from d3 have new: "name \<notin> fst ` set t" by auto
    then have t1: "?t1 = t @ [(name, FileNode (rel_path rel name) a)]"
      by (rule dict_set_new)
    from d2 d3 have d3': "fst ` set ?t1 \<inter> entry_name ` set rest = {}"
      unfolding t1 by auto
    from r have r': "process_items lb rel md cd rest ?t1 s1 = (Inr t', s')"
      by (simp only: process_items_file [OF regular(1,2)])
    from regular(3) d1 d2 d3' r'
    have ih: "total_files s' + count_files ?t1 = total_files s1 + count_files t'
        \<and> total_lines s' + sum_lines ?t1 = total_lines s1 + sum_lines t'"
      by simp
    from analyze_file_counters [OF regular(2)]
    have c: "total_files s1 = total_files s + 1
        \<and> total_lines s1 = total_lines s + analysis_lines a" by simp
    from ih c show "total_files s' + count_files t = total_files s + count_files t'
        \<and> total_lines s' + sum_lines t = total_lines s + sum_lines t'"
      unfolding t1 by (simp add: count_files_append sum_lines_append)
  qed
next
  case (dir lb rel md cd item rest t s r s1)
  show ?case
  proof (intro allI impI)
    fix t' s'
    assume d1: "\<forall>e \<in> set (item # rest). distinct_names e"
      and d2: "distinct (map entry_name (item # rest))"
      and d3: "fst ` set t \<inter> entry_name ` set (item # rest) = {}"
      and p: "process_items lb rel md cd (item # rest) t s = (Inr t', s')"
    show "total_files s' + count_files t = total_files s + count_files t'
        \<and> total_lines s' + sum_lines t = total_lines s + sum_lines t'"
    proof (cases r)
      case (Inl e)
      with dir(3) have e: "process_items lb rel md cd (item # rest) t s = except_PermissionError e t s1"
        using process_items_dir_exc [OF dir(1,2)] by simp
      from p have "except_PermissionError e t s1 = (Inr t', s')" unfolding e .
      then obtain m where "e = PermissionError m"
        using except_PermissionError_Inr_exc by blast
      with dir(3) Inl never_PermissionError(1) [of lb "rel @ [entry_name item]" item md "cd + 1" s]
      show ?thesis by blast
    next
      case (Inr sub)
      with dir(3) have b: "build_file_tree lb (rel @ [entry_name item]) item md (cd + 1) s = (Inr sub, s1)"
        by simp
      let ?t1 = "if sub \<noteq> [] then dict_set t (entry_name item) (DirNode sub) else t"
      from d1 dir(4) b have c: "total_files s1 = total_files s + count_files sub
        \<and> total_lines s1 = total_lines s + sum_lines sub" by simp
      from d3 have new: "entry_name item \<notin> fst ` set t" by auto
      then have t1: "dict_set t (entry_name item) (DirNode sub) = t @ [(entry_name item, DirNode sub)]"
        by (rule dict_set_new)
      from d2 d3 have d3': "fst ` set ?t1 \<inter> entry_name ` set rest = {}"
        unfolding t1 by auto
      from p have r': "process_items lb rel md cd rest ?t1 s1 = (Inr t', s')"
        by (simp only: process_items_dir [OF dir(1,2) b])
      from dir(5) [OF Inr] d1 d2 d3' r'
      have ih: "total_files s' + count_files ?t1 = total_files s1 + count_files t'
        \<and> total_lines s' + sum_lines ?t1 = total_lines s1 + sum_lines t'"
        by simp
      from ih c show ?thesis
        unfolding t1 by (cases "sub = []") (simp_all add: count_files_append sum_lines_append)
    qed
  qed
next
  case (special lb rel md cd name rest t s)
  then show ?case by (simp add: process_items_special)
next
  case (nostat lb rel md cd name e rest t s)
  show ?case
    by (auto simp only: process_items_nostat [OF nostat] dest: except_PermissionError_Inr)
qed


definition example_repo :: entry where
  "example_repo =
     Dir ''repo''
       [Dir ''src'' [File ''app.js'' (Text js_source),
                     Dir ''node_modules'' [File ''dep.js'' (Text ''x'')]],
        File ''main.py'' (Text os_source),
        Dir ''.git'' [File ''config'' (Text ''x'')],
        File ''broken.py'' (Text ''def (''),
        File ''logo.png'' (Unreadable ''invalid start byte''),
        Dir ''empty'' []]"

definition example_tree :: tree where
  "example_tree =
     [(''broken.py'', FileNode ''broken.py'' (PythonError ''invalid syntax'')),
      (''logo.png'', FileNode ''logo.png'' BinaryAnalysis),
      (''main.py'',
         FileNode ''main.py'' (PythonAnalysis 2 [''os'', ''os.path''] [] [] os_source)),
      (''src'',
         DirNode
           [(''app.js'',
               FileNode ''src/app.js''
                 (JavascriptAnalysis 1 [''react/hooks''] [] [] js_source))])]"

definition example_map :: repo_map where
  "example_map =
     \<lparr>repository_structure = example_tree,
      stat_total_files = 4, stat_total_lines = 3, top_dependencies = [''os'', ''react''],
      repo_path = ''repo'',
      analyzed_file_types = [''.py'', ''.js'', ''.jsx'', ''.ts'', ''.tsx'', ''.json'', ''.md'']\<rparr>"

definition example_analysis :: repo_analysis where
  "example_analysis =
     \<lparr>repo_structure = example_tree, dependencies = {|''os'', ''react''|},
      total_lines = 3, total_files = 4\<rparr>"

lemma generate_repo_map_example:
  "generate_repo_map example_lib example_repo init_analysis = (Inr example_map, example_analysis)"
  by code_simp

lemma distinct_names_example: "distinct_names example_repo"
  by code_simp

text \<open>
  C10. When the names in every directory of the repository are distinct and
  \<open>generate_repo_map\<close> returns a report, its \<open>total_files\<close> is the number of file nodes
  of its tree and its \<open>total_lines\<close> is the sum of their \<open>lines\<close> fields, counted from
  the counters the analyser started with (zero for a fresh analyser). A file recorded
  with an error or as binary has \<open>lines = 0\<close> and is a file node like any other.
\<close>

theorem statistics_consistent:
  assumes "distinct_names root"
    and "generate_repo_map lb root s = (Inr m, s')"
  shows "stat_total_files m = total_files s + count_files (repository_structure m)
         \<and> stat_total_lines m = total_lines s + sum_lines (repository_structure m)
         \<and> (s = init_analysis \<longrightarrow>
              stat_total_files m = count_files (repository_structure m)
              \<and> stat_total_lines m = sum_lines (repository_structure m))"
proof -
  obtain r s1 where b: "build_file_tree lb [] root 4 0 s = (r, s1)" by force
  with assms(2) obtain t where r: "r = Inr t"
    by (cases r) (auto simp: generate_repo_map_def)
  from assms(2) b r have m: "repository_structure m = t \<and> stat_total_files m = total_files s1
      \<and> stat_total_lines m = total_lines s1"
    by (auto simp: generate_repo_map_def Let_def)
  from counters_build(1) [of root lb "[]" 4 0 s] assms(1) b r
  have "total_files s1 = total_files s + count_files t
      \<and> total_lines s1 = total_lines s + sum_lines t" by blast
  with m show ?thesis by (simp add: init_analysis_def)
qed

theorem statistics_consistent_witness:
  "distinct_names example_repo
   \<and> generate_repo_map example_lib example_repo init_analysis = (Inr example_map, example_analysis)
   \<and> stat_total_files example_map = count_files (repository_structure example_map)
   \<and> stat_total_lines example_map = sum_lines (repository_structure example_map)
   \<and> count_files example_tree = 4 \<and> sum_lines example_tree = 3"
proof -
  have "stat_total_files example_map = count_files (repository_structure example_map)
      \<and> stat_total_lines example_map = sum_lines (repository_structure example_map)"
    using statistics_consistent [OF distinct_names_example generate_repo_map_example] by blast
  moreover have "count_files example_tree = 4 \<and> sum_lines example_tree = 3"
    by (simp add: example_tree_def)
  ultimately show ?thesis
    using distinct_names_example generate_repo_map_example by blast
qed

section \<open>Failures of one file\<close>

text \<open>
  The message of the exception that the extraction of a file raises, if it raises, the
  record returned for it, and the directories whose traversal meets no exception other
  than \<open>PermissionError\<close>.
\<close>

definition extraction_error :: "lib \<Rightarrow> string \<Rightarrow> file_data \<Rightarrow> string option" where
  "extraction_error lb name fd =
     (if lower (suffix name) = ''.py''
      then (case fd of
              Unreadable e \<Rightarrow> Some e
            | Text content \<Rightarrow> (case ast_parse lb content of Inl e \<Rightarrow> Some e | Inr t \<Rightarrow> None))
      else if lower (suffix name) \<in> set [''.js'', ''.jsx'', ''.ts'', ''.tsx'']
      then (case fd of Unreadable e \<Rightarrow> Some e | Text content \<Rightarrow> None)
      else None)"

definition failure_record :: "string \<Rightarrow> string \<Rightarrow> analysis" where
  "failure_record name e =
     (if lower (suffix name) = ''.py'' then PythonError e else JavascriptError e)"

fun is_PermissionError :: "exc \<Rightarrow> bool" where
  "is_PermissionError (PermissionError m) = True"
| "is_PermissionError e = False"

fun traversable :: "entry \<Rightarrow> bool" where
  "traversable (Dir name items) = (\<forall>e \<in> set items. traversable e)"
| "traversable (NoList name e) = is_PermissionError e"
| "traversable (NoStat name e) = is_PermissionError e"
| "traversable e = True"

lemma analyze_file_failure:
  assumes "extraction_error lb name fd = Some e"
  shows "analyze_file lb name fd s = (failure_record name e, s)"
proof (cases "lower (suffix name) = ''.py''")
  case True
  with assms show ?thesis
    by (auto simp: extraction_error_def analyze_file_def analyze_python_file_def failure_record_def
        split: file_data.splits sum.splits)
next
  case False
  with assms show ?thesis
    by (auto simp: extraction_error_def analyze_file_def analyze_javascript_file_def
        failure_record_def split: file_data.splits if_splits)
qed

lemma except_PermissionError_ok:
  "is_PermissionError e \<Longrightarrow> except_PermissionError e t s = (Inr t, s)"
  by (cases e) simp_all

lemma traversal_returns:
  "traversable path \<longrightarrow> is_dir path \<longrightarrow>
     (\<exists>t s'. build_file_tree lb rel path md cd s = (Inr t, s'))"
  and "(\<forall>e \<in> set items. traversable e) \<longrightarrow>
     (\<exists>t s'. process_items lb rel md cd items t0 s = (Inr t, s'))"
proof (induction lb rel path md cd s and lb rel md cd items t0 s rule: traversal_induct)
  case (build lb rel path md cd s)
  show ?case
  proof (intro impI)
    assume tr: "traversable path" and d: "is_dir path"
    show "\<exists>t s'. build_file_tree lb rel path md cd s = (Inr t, s')"
    proof (cases "md < cd")
      case True
      then show ?thesis by (simp add: build_beyond_max_depth)
    next
      case False
      show ?thesis
      proof (cases "iterdir path")
        case (Inl e)
        with tr d have "is_PermissionError e" by (cases path) simp_all
        with False Inl show ?thesis
          by (simp add: build_no_listing except_PermissionError_ok)
      next
        case (Inr items)
        then obtain name where p: "path = Dir name items" using iterdir_Inr by blast
        with tr have "\<forall>e \<in> set (sort_key entry_name items). traversable e" by simp
        with build [OF False Inr] False Inr show ?thesis by (simp add: build_listing)
      qed
    qed
  qed
next
  case (nil lb rel md cd t s)
  show ?case by simp
next
  case (skip lb rel md cd item rest t s)
  then show ?case by (simp add: process_items_skip)
next
  case (regular lb rel md cd name fd rest t s a s1)
  from regular(3) show ?case unfolding process_items_file [OF regular(1,2)] by simp
next
  case (dir lb rel md cd item rest t s r s1)
  show ?case
  proof (intro impI)
    assume tr: "\<forall>e \<in> set (item # rest). traversable e"
    with dir(2,3,4) obtain sub where b:
      "build_file_tree lb (rel @ [entry_name item]) item md (cd + 1) s = (Inr sub, s1)"
      by auto
    with dir(3) have "r = Inr sub" by simp
    from dir(5) [OF this] tr
    show "\<exists>t' s'. process_items lb rel md cd (item # rest) t s = (Inr t', s')"
      unfolding process_items_dir [OF dir(1,2) b] by simp
  qed
next
  case (special lb rel md cd name rest t s)
  then show ?case by (simp add: process_items_special)
next
  case (nostat lb rel md cd name e rest t s)
  show ?case
    unfolding process_items_nostat [OF nostat] by (simp add: except_PermissionError_ok)
qed

text \<open>
  C4. When the extraction of a \<open>.py\<close>, \<open>.js\<close>, \<open>.jsx\<close>, \<open>.ts\<close> or \<open>.tsx\<close> file raises
  (the file cannot be read, or \<open>ast.parse\<close> fails), \<open>analyze_file\<close> returns the record
  with the message of the exception, \<open>lines = 0\<close> and no summary, and leaves the analyser
  as it was; the loop stores this record under the name of the file, counts the file and
  goes on with the remaining entries. Whatever its files hold, the traversal of a
  directory returns a report as long as no listing and no \<open>is_file\<close> raises anything but
  a \<open>PermissionError\<close>.
\<close>

theorem extraction_failure_local:
  assumes "extraction_error lb name fd = Some e"
  shows "analyze_file lb name fd s = (failure_record name e, s)
         \<and> analysis_error (failure_record name e) = Some e
         \<and> analysis_lines (failure_record name e) = 0
         \<and> \<not> has_summary (failure_record name e)
         \<and> (\<not> should_skip name \<longrightarrow>
              process_items lb rel max_depth current_depth (File name fd # rest) t s =
                process_items lb rel max_depth current_depth rest
                  (dict_set t name (FileNode (rel_path rel name) (failure_record name e)))
                  (s\<lparr>total_files := total_files s + 1\<rparr>))
         \<and> (traversable root \<longrightarrow> is_dir root \<longrightarrow>
              (\<exists>m s'. generate_repo_map lb root s = (Inr m, s')))"
proof (intro conjI impI)
  show a: "analyze_file lb name fd s = (failure_record name e, s)"
    using assms by (rule analyze_file_failure)
  show "analysis_error (failure_record name e) = Some e"
    and "analysis_lines (failure_record name e) = 0"
    and "\<not> has_summary (failure_record name e)"
    by (simp_all add: failure_record_def)
next
  assume n: "\<not> should_skip name"
  have "analyze_file lb name fd (s\<lparr>total_files := total_files s + 1\<rparr>)
          = (failure_record name e, s\<lparr>total_files := total_files s + 1\<rparr>)"
    using assms by (rule analyze_file_failure)
  then show "process_items lb rel max_depth current_depth (File name fd # rest) t s =
                process_items lb rel max_depth current_depth rest
                  (dict_set t name (FileNode (rel_path rel name) (failure_record name e)))
                  (s\<lparr>total_files := total_files s + 1\<rparr>)"
    by (rule process_items_file [OF n])
next
  assume "traversable root" and "is_dir root"
  then obtain t s1 where "build_file_tree lb [] root 4 0 s = (Inr t, s1)"
    using traversal_returns(1) by blast
  then show "\<exists>m s'. generate_repo_map lb root s = (Inr m, s')"
    by (simp add: generate_repo_map_def Let_def)
qed


lemma extraction_error_broken:
  "extraction_error example_lib ''broken.py'' (Text ''def ('') = Some ''invalid syntax''"
  by code_simp

lemma traversable_example: "traversable example_repo \<and> is_dir example_repo"
  by code_simp

theorem extraction_failure_local_witness:
  "extraction_error example_lib ''broken.py'' (Text ''def ('') = Some ''invalid syntax''
   \<and> analyze_file example_lib ''broken.py'' (Text ''def ('') init_analysis
       = (PythonError ''invalid syntax'', init_analysis)
   \<and> \<not> should_skip ''broken.py''
   \<and> process_items example_lib [] 4 0
         [File ''broken.py'' (Text ''def (''), File ''main.py'' (Text os_source)] [] init_analysis
       = process_items example_lib [] 4 0 [File ''main.py'' (Text os_source)]
           [(''broken.py'', FileNode ''broken.py'' (PythonError ''invalid syntax''))]
           (init_analysis\<lparr>total_files := 1\<rparr>)
   \<and> traversable example_repo \<and> is_dir example_repo
   \<and> generate_repo_map example_lib example_repo init_analysis = (Inr example_map, example_analysis)"
proof -
  note w = extraction_failure_local [OF extraction_error_broken, where s = init_analysis]
  have f: "failure_record ''broken.py'' ''invalid syntax'' = PythonError ''invalid syntax''"
    by code_simp
  have n: "\<not> should_skip ''broken.py''" by code_simp
  have a: "analyze_file example_lib ''broken.py'' (Text ''def ('') init_analysis
       = (PythonError ''invalid syntax'', init_analysis)"
    using w [THEN conjunct1] unfolding f .
  have "process_items example_lib [] 4 0
         [File ''broken.py'' (Text ''def (''), File ''main.py'' (Text os_source)] [] init_analysis
       = process_items example_lib [] 4 0 [File ''main.py'' (Text os_source)]
           (dict_set [] ''broken.py''
              (FileNode (rel_path [] ''broken.py'') (failure_record ''broken.py'' ''invalid syntax'')))
           (init_analysis\<lparr>total_files := total_files init_analysis + 1\<rparr>)"
    using n w [where rel = "[]" and max_depth = 4 and current_depth = 0 and t = "[]"
        and rest = "[File ''main.py'' (Text os_source)]"]
    by blast
  then have b: "process_items example_lib [] 4 0
         [File ''broken.py'' (Text ''def (''), File ''main.py'' (Text os_source)] [] init_analysis
       = process_items example_lib [] 4 0 [File ''main.py'' (Text os_source)]
           [(''broken.py'', FileNode ''broken.py'' (PythonError ''invalid syntax''))]
           (init_analysis\<lparr>total_files := 1\<rparr>)"
    unfolding f by (simp add: rel_path_def init_analysis_def del: process_items.simps)
  from extraction_error_broken a n b traversable_example generate_repo_map_example
  show ?thesis by blast
qed

section \<open>Unreadable files\<close>

definition is_structured :: "string \<Rightarrow> bool" where
  "is_structured name \<longleftrightarrow>
     lower (suffix name) \<in> set [''.py'', ''.js'', ''.jsx'', ''.ts'', ''.tsx'']"

lemma analyze_file_unreadable_plain:
  "\<not> is_structured name \<Longrightarrow> analyze_file lb name (Unreadable e) s = (BinaryAnalysis, s)"
  by (auto simp: is_structured_def analyze_file_def)

lemma extraction_error_unreadable:
  "is_structured name \<Longrightarrow> extraction_error lb name (Unreadable e) = Some e"
  by (auto simp: is_structured_def extraction_error_def)

text \<open>
  C5, as stated, fails for the structured extensions: a file \<open>data.py\<close> that cannot be
  decoded is recorded with the error text, not as binary.
\<close>

theorem unreadable_python_counterexample:
  "fst (analyze_file example_lib ''data.py'' (Unreadable ''invalid start byte'') init_analysis)
     \<noteq> BinaryAnalysis
   \<and> analysis_error
        (fst (analyze_file example_lib ''data.py'' (Unreadable ''invalid start byte'') init_analysis))
       = Some ''invalid start byte''"
  by code_simp

text \<open>
  C5, amended. A file that cannot be opened or decoded and whose extension is none of
  \<open>.py\<close>, \<open>.js\<close>, \<open>.jsx\<close>, \<open>.ts\<close>, \<open>.tsx\<close> is recorded as \<open>binary\<close>, with \<open>lines = 0\<close>, no
  preview and no error text; with one of these extensions it is recorded as an analysis
  failure, with the error text, \<open>lines = 0\<close> and no preview. In both cases the analyser
  is left as it was and the loop goes on with the remaining entries.
\<close>

theorem unreadable_file_outcome:
  "(\<not> is_structured name \<longrightarrow>
      analyze_file lb name (Unreadable e) s = (BinaryAnalysis, s))
   \<and> analysis_type BinaryAnalysis = ''binary'' \<and> analysis_lines BinaryAnalysis = 0
   \<and> analysis_preview BinaryAnalysis = None \<and> analysis_error BinaryAnalysis = None
   \<and> (is_structured name \<longrightarrow>
        analyze_file lb name (Unreadable e) s = (failure_record name e, s)
        \<and> analysis_error (failure_record name e) = Some e
        \<and> analysis_lines (failure_record name e) = 0
        \<and> analysis_preview (failure_record name e) = None)
   \<and> (\<not> should_skip name \<longrightarrow>
        process_items lb rel max_depth current_depth (File name (Unreadable e) # rest) t s =
          process_items lb rel max_depth current_depth rest
            (dict_set t name
               (FileNode (rel_path rel name)
                  (if is_structured name then failure_record name e else BinaryAnalysis)))
            (s\<lparr>total_files := total_files s + 1\<rparr>))"
proof (intro conjI impI)
  assume "\<not> is_structured name"
  then show "analyze_file lb name (Unreadable e) s = (BinaryAnalysis, s)"
    by (rule analyze_file_unreadable_plain)
next
  show "analysis_type BinaryAnalysis = ''binary''" and "analysis_lines BinaryAnalysis = 0"
    and "analysis_preview BinaryAnalysis = None" and "analysis_error BinaryAnalysis = None"
    by simp_all
next
  assume "is_structured name"
  then show "analyze_file lb name (Unreadable e) s = (failure_record name e, s)"
    by (rule analyze_file_failure [OF extraction_error_unreadable])
  show "analysis_error (failure_record name e) = Some e"
    and "analysis_lines (failure_record name e) = 0"
    and "analysis_preview (failure_record name e) = None"
    by (simp_all add: failure_record_def)
next
  assume n: "\<not> should_skip name"
  have "analyze_file lb name (Unreadable e) (s\<lparr>total_files := total_files s + 1\<rparr>)
          = (if is_structured name then failure_record name e else BinaryAnalysis,
             s\<lparr>total_files := total_files s + 1\<rparr>)"
    using analyze_file_unreadable_plain [of name lb e]
      analyze_file_failure [OF extraction_error_unreadable, of name lb e]
    by (cases "is_structured name") simp_all
  then show "process_items lb rel max_depth current_depth (File name (Unreadable e) # rest) t s =
          process_items lb rel max_depth current_depth rest
            (dict_set t name
               (FileNode (rel_path rel name)
                  (if is_structured name then failure_record name e else BinaryAnalysis)))
            (s\<lparr>total_files := total_files s + 1\<rparr>)"
    by (rule process_items_file [OF n])
qed

theorem unreadable_file_outcome_witness:
  "\<not> is_structured ''logo.png'' \<and> is_structured ''data.py'' \<and> \<not> should_skip ''logo.png''
   \<and> analyze_file example_lib ''logo.png'' (Unreadable ''invalid start byte'') init_analysis
       = (BinaryAnalysis, init_analysis)
   \<and> analyze_file example_lib ''data.py'' (Unreadable ''invalid start byte'') init_analysis
       = (PythonError ''invalid start byte'', init_analysis)
   \<and> process_items example_lib [] 4 0
         [File ''logo.png'' (Unreadable ''invalid start byte''), File ''main.py'' (Text os_source)]
         [] init_analysis
       = process_items example_lib [] 4 0 [File ''main.py'' (Text os_source)]
           [(''logo.png'', FileNode ''logo.png'' BinaryAnalysis)]
           (init_analysis\<lparr>total_files := 1\<rparr>)"
proof -
  have p: "\<not> is_structured ''logo.png''" by code_simp
  have q: "is_structured ''data.py''" by code_simp
  have n: "\<not> should_skip ''logo.png''" by code_simp
  have f: "failure_record ''data.py'' ''invalid start byte'' = PythonError ''invalid start byte''"
    by code_simp
  note w = unreadable_file_outcome [where lb = example_lib and e = "''invalid start byte''"
      and s = init_analysis]
  have a: "analyze_file example_lib ''logo.png'' (Unreadable ''invalid start byte'') init_analysis
       = (BinaryAnalysis, init_analysis)"
    using p w [where name = "''logo.png''"] by blast
  have "analyze_file example_lib ''data.py'' (Unreadable ''invalid start byte'') init_analysis
       = (failure_record ''data.py'' ''invalid start byte'', init_analysis)"
    using q w [where name = "''data.py''"] by blast
  then have b: "analyze_file example_lib ''data.py'' (Unreadable ''invalid start byte'') init_analysis
       = (PythonError ''invalid start byte'', init_analysis)"
    unfolding f .
  have "process_items example_lib [] 4 0
         [File ''logo.png'' (Unreadable ''invalid start byte''), File ''main.py'' (Text os_source)]
         [] init_analysis
       = process_items example_lib [] 4 0 [File ''main.py'' (Text os_source)]
           (dict_set [] ''logo.png''
              (FileNode (rel_path [] ''logo.png'')
                 (if is_structured ''logo.png''
                  then failure_record ''logo.png'' ''invalid start byte'' else BinaryAnalysis)))
           (init_analysis\<lparr>total_files := total_files init_analysis + 1\<rparr>)"
    using n w [where name = "''logo.png''" and rel = "[]" and max_depth = 4
        and current_depth = 0 and t = "[]" and rest = "[File ''main.py'' (Text os_source)]"]
    by blast
  then have c: "process_items example_lib [] 4 0
         [File ''logo.png'' (Unreadable ''invalid start byte''), File ''main.py'' (Text os_source)]
         [] init_analysis
       = process_items example_lib [] 4 0 [File ''main.py'' (Text os_source)]
           [(''logo.png'', FileNode ''logo.png'' BinaryAnalysis)]
           (init_analysis\<lparr>total_files := 1\<rparr>)"
    using p by (simp add: rel_path_def init_analysis_def del: process_items.simps)
  from p q n a b c show ?thesis by blast
qed

section \<open>The workspace and the failures of a request\<close>

text \<open>
  Three worlds: the clone holds a directory that cannot be listed, the clone is the
  repository with one Python file, and the clone fails.
\<close>

definition io_error_repo :: entry where
  "io_error_repo =
     Dir ''/tmp/tmpk3x9''
       [File ''a.txt'' (Text ''x''), NoList ''data'' (OSError ''Input/output error'')]"

definition io_error_world :: world where
  "io_error_world = \<lparr>git_clone = (\<lambda>url. Cloned io_error_repo), rmtree = (\<lambda>path. None)\<rparr>"

definition py_world :: world where
  "py_world = \<lparr>git_clone = (\<lambda>url. Cloned py_repo), rmtree = (\<lambda>path. None)\<rparr>"

definition unreachable_world :: world where
  "unreachable_world =
     \<lparr>git_clone = (\<lambda>url. CalledProcessError ''fatal: repository not found''),
      rmtree = (\<lambda>path. None)\<rparr>"

text \<open>
  C1. The temporary directory is removed only by the \<open>shutil.rmtree\<close> call that follows
  the tour on the successful path. For a repository in which the listing of a directory
  raises an \<open>OSError\<close>, the endpoint returns the failure dictionary and the directory
  still exists; for a repository that is analysed to the end, it is gone.
\<close>

theorem workspace_left_behind:
  "analyze_repository example_lib io_error_world ''https://github.com/o/r''
     = (Inr (Failure ''Input/output error''), True)
   \<and> analyze_repository example_lib py_world ''https://github.com/o/r''
     = (Inr (Success py_repo_map (generate_repo_tour py_repo_analysis) ''https://github.com/o/r''),
        False)"
  by code_simp

text \<open>
  C2. No exception leaves the endpoint: the \<open>HTTPException\<close> with status 400 that
  \<open>clone_repository\<close> raises is caught by the \<open>except Exception\<close> of the endpoint
  itself. A failed clone is answered with the same failure dictionary as a failed
  traversal, its error text being the printed exception.
\<close>

theorem clone_failure_envelope:
  "fst (analyze_repository lb w repo_url) \<noteq> Inl e
   \<and> analyze_repository example_lib unreachable_world ''not-a-url''
     = (Inr (Failure ''400: Failed to clone repository: fatal: repository not found''), True)
   \<and> analyze_repository example_lib io_error_world ''https://github.com/o/r''
     = (Inr (Failure ''Input/output error''), True)"
proof (intro conjI)
  show "fst (analyze_repository lb w repo_url) \<noteq> Inl e"
    by (simp add: analyze_repository_def split: prod.splits sum.splits)
  show "analyze_repository example_lib unreachable_world ''not-a-url''
     = (Inr (Failure ''400: Failed to clone repository: fatal: repository not found''), True)"
    by code_simp
  show "analyze_repository example_lib io_error_world ''https://github.com/o/r''
     = (Inr (Failure ''Input/output error''), True)"
    by code_simp
qed

end
